theory Spec2Isabelle
  imports Main
begin

section \<open>The migrate command of graphile-migrate (src/commands/migrate.ts)\<close>

text \<open>
  The file under verification defines two asynchronous functions, \<open>_migrate\<close> and
  \<open>migrate\<close>. Both only compose collaborators imported from other modules
  (\<open>withClient\<close>, \<open>withAdvisoryLock\<close>, \<open>getLastMigration\<close>, \<open>getMigrationsAfter\<close>,
  \<open>executeActions\<close>, \<open>runCommittedMigration\<close>, \<open>parseSettings\<close> and the logger). What a
  collaborator does to the database is a parameter of the model (the record \<open>env\<close>
  below, acting on a world of type \<open>'w\<close>); what \<open>_migrate\<close> does is the order in which
  it calls them, which calls it skips, and how it reacts to a rejected promise.

  An asynchronous computation is a function from the world to an outcome (\<open>Inl\<close> a thrown
  value, \<open>Inr\<close> the resolved value), the new world, and the list of collaborator calls it
  made, in order. Every awaited call is taken to settle (resolve or reject).
\<close>

subsection \<open>Values\<close>

text \<open>
  What a JavaScript \<open>throw\<close> carries: the \<open>Error\<close> that \<open>_migrate\<close> itself creates
  (\<open>new Error(message)\<close>), or any value \<open>'e\<close> thrown by a collaborator.
\<close>

datatype 'e error = Error string | Thrown 'e

text \<open>
  The fields of \<open>ParsedSettings\<close> that \<open>_migrate\<close> reads. A connection string may be
  \<open>undefined\<close> (\<open>None\<close>). \<open>'h\<close> is the type of one hook action.
\<close>

record 'h ParsedSettings =
  connectionString :: "string option"
  shadowConnectionString :: "string option"
  beforeAllMigrations :: "'h list"
  afterAllMigrations :: "'h list"

text \<open>
  One entry per collaborator call, with the arguments that matter and the way the call
  settled. \<open>'m\<close> is the type of a migration descriptor; the last applied migration is
  \<open>'m option\<close> (\<open>null\<close> is \<open>None\<close>).
\<close>

datatype ('m, 'h, 'e) event =
    ParseSettings bool "'e error + unit"
  | Connect string "'e error + unit"
  | Release
  | Lock "'e error + unit"
  | Unlock
  | GetLastMigration "'e error + 'm option"
  | GetMigrationsAfter "'m option" "'e error + 'm list"
  | ExecuteActions bool "'h list" "'e error + unit"
  | RunCommittedMigration 'm string "'e error + unit"
  | LoggerInfo string "'e error + unit"

type_synonym ('v, 'w, 'm, 'h, 'e) async =
  "'w \<Rightarrow> ('e error + 'v) \<times> 'w \<times> ('m, 'h, 'e) event list"

text \<open>
  The collaborators, as functions on the world. \<open>'s\<close> is the unparsed \<open>Settings\<close>,
  \<open>'c\<close> the database client, \<open>'x\<close> the context that \<open>withClient\<close> hands to its body.
\<close>

record ('w, 's, 'h, 'c, 'x, 'm, 'e) env =
  parseSettings_impl :: "'s \<Rightarrow> bool \<Rightarrow> 'w \<Rightarrow> ('e error + 'h ParsedSettings) \<times> 'w"
  connect_impl :: "string \<Rightarrow> 'h ParsedSettings \<Rightarrow> 'w \<Rightarrow> ('e error + 'c \<times> 'x) \<times> 'w"
  release_impl :: "'c \<Rightarrow> 'w \<Rightarrow> 'w"
  lock_impl :: "'c \<Rightarrow> 'w \<Rightarrow> ('e error + unit) \<times> 'w"
  unlock_impl :: "'c \<Rightarrow> 'w \<Rightarrow> 'w"
  getLastMigration_impl :: "'c \<Rightarrow> 'h ParsedSettings \<Rightarrow> 'w \<Rightarrow> ('e error + 'm option) \<times> 'w"
  getMigrationsAfter_impl :: "'h ParsedSettings \<Rightarrow> 'm option \<Rightarrow> 'w \<Rightarrow> ('e error + 'm list) \<times> 'w"
  executeActions_impl :: "'h ParsedSettings \<Rightarrow> bool \<Rightarrow> 'h list \<Rightarrow> 'w \<Rightarrow> ('e error + unit) \<times> 'w"
  runCommittedMigration_impl ::
    "'c \<Rightarrow> 'h ParsedSettings \<Rightarrow> 'x \<Rightarrow> 'm \<Rightarrow> string \<Rightarrow> 'w \<Rightarrow> ('e error + unit) \<times> 'w"
  logger_info_impl :: "string \<Rightarrow> 'w \<Rightarrow> ('e error + unit) \<times> 'w"

subsection \<open>Control flow: await, throw, for-of\<close>

text \<open>
  \<open>await m k\<close> is \<open>const v = await m; k v\<close>: when \<open>m\<close> rejects, the rest is skipped and
  the rejection is the result.
\<close>

definition await ::
  "('v, 'w, 'm, 'h, 'e) async \<Rightarrow> ('v \<Rightarrow> ('u, 'w, 'm, 'h, 'e) async) \<Rightarrow> ('u, 'w, 'm, 'h, 'e) async"
where
  "await m k w =
     (case m w of
        (Inl e, w1, t1) \<Rightarrow> (Inl e, w1, t1)
      | (Inr v, w1, t1) \<Rightarrow> (case k v w1 of (r, w2, t2) \<Rightarrow> (r, w2, t1 @ t2)))"

definition throw :: "'e error \<Rightarrow> ('v, 'w, 'm, 'h, 'e) async" where
  "throw e w = (Inl e, w, [])"

definition skip :: "(unit, 'w, 'm, 'h, 'e) async" where
  "skip w = (Inr (), w, [])"

text \<open>\<open>for (const x of xs) { await f(x); }\<close>: the first rejection ends the loop.\<close>

fun for_of :: "'a list \<Rightarrow> ('a \<Rightarrow> (unit, 'w, 'm, 'h, 'e) async) \<Rightarrow> (unit, 'w, 'm, 'h, 'e) async" where
  "for_of [] f w = (Inr (), w, [])"
| "for_of (x # xs) f w =
     (case f x w of
        (Inl e, w1, t1) \<Rightarrow> (Inl e, w1, t1)
      | (Inr u, w1, t1) \<Rightarrow> (case for_of xs f w1 of (r, w2, t2) \<Rightarrow> (r, w2, t1 @ t2)))"

subsection \<open>The collaborators as calls\<close>

definition parseSettings ::
  "('w, 's, 'h, 'c, 'x, 'm, 'e) env \<Rightarrow> 's \<Rightarrow> bool \<Rightarrow> ('h ParsedSettings, 'w, 'm, 'h, 'e) async"
where
  "parseSettings env settings shadow w =
     (case parseSettings_impl env settings shadow w of
        (Inl e, w1) \<Rightarrow> (Inl e, w1, [ParseSettings shadow (Inl e)])
      | (Inr p, w1) \<Rightarrow> (Inr p, w1, [ParseSettings shadow (Inr ())]))"

definition getLastMigration ::
  "('w, 's, 'h, 'c, 'x, 'm, 'e) env \<Rightarrow> 'c \<Rightarrow> 'h ParsedSettings \<Rightarrow> ('m option, 'w, 'm, 'h, 'e) async"
where
  "getLastMigration env pgClient parsedSettings w =
     (case getLastMigration_impl env pgClient parsedSettings w of
        (r, w1) \<Rightarrow> (r, w1, [GetLastMigration r]))"

definition getMigrationsAfter ::
  "('w, 's, 'h, 'c, 'x, 'm, 'e) env \<Rightarrow> 'h ParsedSettings \<Rightarrow> 'm option \<Rightarrow> ('m list, 'w, 'm, 'h, 'e) async"
where
  "getMigrationsAfter env parsedSettings lastMigration w =
     (case getMigrationsAfter_impl env parsedSettings lastMigration w of
        (r, w1) \<Rightarrow> (r, w1, [GetMigrationsAfter lastMigration r]))"

definition executeActions ::
  "('w, 's, 'h, 'c, 'x, 'm, 'e) env \<Rightarrow> 'h ParsedSettings \<Rightarrow> bool \<Rightarrow> 'h list \<Rightarrow> (unit, 'w, 'm, 'h, 'e) async"
where
  "executeActions env parsedSettings shadow actions w =
     (case executeActions_impl env parsedSettings shadow actions w of
        (r, w1) \<Rightarrow> (r, w1, [ExecuteActions shadow actions r]))"

definition runCommittedMigration ::
  "('w, 's, 'h, 'c, 'x, 'm, 'e) env \<Rightarrow> 'c \<Rightarrow> 'h ParsedSettings \<Rightarrow> 'x \<Rightarrow> 'm \<Rightarrow> string \<Rightarrow>
   (unit, 'w, 'm, 'h, 'e) async"
where
  "runCommittedMigration env pgClient parsedSettings context migration logSuffix w =
     (case runCommittedMigration_impl env pgClient parsedSettings context migration logSuffix w of
        (r, w1) \<Rightarrow> (r, w1, [RunCommittedMigration migration logSuffix r]))"

text \<open>
  \<open>parsedSettings.logger.info(message)\<close>: an ordinary call inside the asynchronous closure,
  with no handler around it; when the logger throws, the closure rejects.
\<close>

definition logger_info :: "('w, 's, 'h, 'c, 'x, 'm, 'e) env \<Rightarrow> string \<Rightarrow> (unit, 'w, 'm, 'h, 'e) async" where
  "logger_info env message w =
     (case logger_info_impl env message w of
        (r, w1) \<Rightarrow> (r, w1, [LoggerInfo message r]))"

text \<open>
  Modelled from the spec: \<open>withClient\<close> (module \<open>../pg\<close>, not among the sources).
  Scoped acquisition of a database session bound to \<open>connectionString\<close>: a failed
  acquisition is fatal and the body does not run; otherwise the body receives the pair
  (connection, context), the session is released on every exit path of the body, and
  the body's outcome is the outcome of the call.
\<close>

definition withClient ::
  "('w, 's, 'h, 'c, 'x, 'm, 'e) env \<Rightarrow> string \<Rightarrow> 'h ParsedSettings \<Rightarrow>
   ('c \<Rightarrow> 'x \<Rightarrow> ('v, 'w, 'm, 'h, 'e) async) \<Rightarrow> ('v, 'w, 'm, 'h, 'e) async"
where
  "withClient env connStr parsedSettings body w =
     (case connect_impl env connStr parsedSettings w of
        (Inl e, w1) \<Rightarrow> (Inl e, w1, [Connect connStr (Inl e)])
      | (Inr (pgClient, context), w1) \<Rightarrow>
          (case body pgClient context w1 of
             (r, w2, t) \<Rightarrow> (r, release_impl env pgClient w2, Connect connStr (Inr ()) # t @ [Release])))"

text \<open>
  Modelled from the spec: \<open>withAdvisoryLock\<close> (module \<open>../pgReal\<close>, not among the
  sources). Acquires the advisory lock of the connection's session before invoking the
  body; a failed acquisition is fatal and the body does not run; the lock is released on
  every exit path of the body, thrown errors included, and the body's outcome is the
  outcome of the call.
\<close>

definition withAdvisoryLock ::
  "('w, 's, 'h, 'c, 'x, 'm, 'e) env \<Rightarrow> 'c \<Rightarrow> ('v, 'w, 'm, 'h, 'e) async \<Rightarrow> ('v, 'w, 'm, 'h, 'e) async"
where
  "withAdvisoryLock env pgClient body w =
     (case lock_impl env pgClient w of
        (Inl e, w1) \<Rightarrow> (Inl e, w1, [Lock (Inl e)])
      | (Inr u, w1) \<Rightarrow>
          (case body w1 of
             (r, w2, t) \<Rightarrow> (r, unlock_impl env pgClient w2, Lock (Inr ()) # t @ [Unlock])))"

text \<open>
  Modelled from the spec: the failure contract of \<open>runCommittedMigration\<close> (module
  \<open>../migration\<close>, not among the sources). On failure it fails with an error carrying
  the identity of the offending descriptor: \<open>identity\<close> reads, from an error, the
  migration it names.
\<close>

definition runner_identifies ::
  "('w, 's, 'h, 'c, 'x, 'm, 'e) env \<Rightarrow> ('e error \<Rightarrow> 'm option) \<Rightarrow> bool"
where
  "runner_identifies env identity =
     (\<forall>pgClient parsedSettings context migration logSuffix w e w1.
        runCommittedMigration_impl env pgClient parsedSettings context migration logSuffix w =
          (Inl e, w1) \<longrightarrow>
        identity e = Some migration)"

subsection \<open>Strings of the status line\<close>

text \<open>The decimal digits of an array length, as a template literal prints it.\<close>

definition digit :: "nat \<Rightarrow> char" where
  "digit d = ''0123456789'' ! d"

fun decimal :: "nat \<Rightarrow> string" where
  "decimal n = (if n < 10 then [digit n] else decimal (n div 10) @ [digit (n mod 10)])"

declare decimal.simps [simp del]

text \<open>U+2014 (the dash of the third status text), in UTF-8.\<close>

definition em_dash :: string where
  "em_dash = [CHR 0xE2, CHR 0x80, CHR 0x94]"

text \<open>
  The argument of \<open>logger.info\<close> (lines 68 to 74): \<open>lastMigration\<close> is an object or
  \<open>null\<close>, so it is truthy exactly when it is not \<open>None\<close>.
\<close>

definition status_line :: "string \<Rightarrow> 'm list \<Rightarrow> 'm option \<Rightarrow> string" where
  "status_line logSuffix remainingMigrations lastMigration =
     ''graphile-migrate'' @ logSuffix @ '': '' @
     (if length remainingMigrations > 0
      then decimal (length remainingMigrations) @ '' committed migrations executed''
      else if lastMigration \<noteq> None
      then ''Already up to date''
      else ''Up to date '' @ em_dash @ '' no committed migrations to run'')"

subsection \<open>The two functions of the file\<close>

text \<open>
  An omitted argument is \<open>None\<close>; a parameter declared \<open>shadow = false\<close> takes its
  default then.
\<close>

definition default_arg :: "'a \<Rightarrow> 'a option \<Rightarrow> 'a" where
  "default_arg d a = (case a of None \<Rightarrow> d | Some v \<Rightarrow> v)"

text \<open>\<open>!connectionString\<close>: \<open>undefined\<close> and the empty string are falsy.\<close>

definition falsy :: "string option \<Rightarrow> bool" where
  "falsy s = (case s of None \<Rightarrow> True | Some v \<Rightarrow> v = [])"

text \<open>The closure passed to \<open>withAdvisoryLock\<close> (lines 35 to 76).\<close>

definition locked_body ::
  "('w, 's, 'h, 'c, 'x, 'm, 'e) env \<Rightarrow> 'h ParsedSettings \<Rightarrow> bool \<Rightarrow> bool \<Rightarrow> string \<Rightarrow> 'c \<Rightarrow> 'x \<Rightarrow>
   (unit, 'w, 'm, 'h, 'e) async"
where
  "locked_body env parsedSettings shadow forceActions logSuffix pgClient context =
     await (getLastMigration env pgClient parsedSettings) (\<lambda>lastMigration.
     await (getMigrationsAfter env parsedSettings lastMigration) (\<lambda>remainingMigrations.
     let shouldExecuteActions = (length remainingMigrations > 0 \<or> forceActions) in
     await (if shouldExecuteActions
            then executeActions env parsedSettings shadow (beforeAllMigrations parsedSettings)
            else skip) (\<lambda>_.
     await (for_of remainingMigrations (\<lambda>migration.
              runCommittedMigration env pgClient parsedSettings context migration logSuffix)) (\<lambda>_.
     await (if shouldExecuteActions
            then executeActions env parsedSettings shadow (afterAllMigrations parsedSettings)
            else skip) (\<lambda>_.
     logger_info env (status_line logSuffix remainingMigrations lastMigration))))))"

text \<open>
  \<open>_migrate\<close> (lines 19 to 79; an Isabelle name cannot begin with an underscore).
  After the check of line 27 the connection string is a non-empty string, which is
  what \<open>the\<close> reads.
\<close>

definition u_migrate ::
  "('w, 's, 'h, 'c, 'x, 'm, 'e) env \<Rightarrow> 'h ParsedSettings \<Rightarrow> bool option \<Rightarrow> bool option \<Rightarrow>
   (unit, 'w, 'm, 'h, 'e) async"
where
  "u_migrate env parsedSettings shadowArg forceActionsArg =
     (let shadow = default_arg False shadowArg;
          forceActions = default_arg False forceActionsArg;
          connStr = (if shadow then shadowConnectionString parsedSettings
                     else connectionString parsedSettings)
      in if falsy connStr then throw (Error ''Could not determine connection string'')
         else
           let logSuffix = (if shadow then ''[shadow]'' else '''') in
           withClient env (the connStr) parsedSettings (\<lambda>pgClient context.
             withAdvisoryLock env pgClient
               (locked_body env parsedSettings shadow forceActions logSuffix pgClient context)))"

text \<open>\<open>migrate\<close> (lines 81 to 88).\<close>

definition migrate ::
  "('w, 's, 'h, 'c, 'x, 'm, 'e) env \<Rightarrow> 's \<Rightarrow> bool option \<Rightarrow> bool option \<Rightarrow> (unit, 'w, 'm, 'h, 'e) async"
where
  "migrate env settings shadowArg forceActionsArg =
     (let shadow = default_arg False shadowArg;
          forceActions = default_arg False forceActionsArg
      in await (parseSettings env settings shadow) (\<lambda>parsedSettings.
           u_migrate env parsedSettings (Some shadow) (Some forceActions)))"

text \<open>
  The claim about \<open>migrate\<close> in its own words: first \<open>parseSettings(settings, shadow)\<close>,
  then \<open>_migrate\<close> on the result with the same \<open>shadow\<close> and \<open>forceActions\<close>.
\<close>

definition migrate_spec ::
  "('w, 's, 'h, 'c, 'x, 'm, 'e) env \<Rightarrow> 's \<Rightarrow> bool \<Rightarrow> bool \<Rightarrow> (unit, 'w, 'm, 'h, 'e) async"
where
  "migrate_spec env settings shadow forceActions w =
     (case parseSettings env settings shadow w of
        (Inl e, w1, t1) \<Rightarrow> (Inl e, w1, t1)
      | (Inr parsedSettings, w1, t1) \<Rightarrow>
          (case u_migrate env parsedSettings (Some shadow) (Some forceActions) w1 of
             (r, w2, t2) \<Rightarrow> (r, w2, t1 @ t2)))"

subsection \<open>Reading a run\<close>

text \<open>A run is the triple a computation returns: its outcome, the world it leaves, its calls.\<close>

definition result_of :: "'r \<times> 'w \<times> 't \<Rightarrow> 'r" where
  "result_of run = fst run"

definition world_of :: "'r \<times> 'w \<times> 't \<Rightarrow> 'w" where
  "world_of run = fst (snd run)"

definition events_of :: "'r \<times> 'w \<times> 't \<Rightarrow> 't" where
  "events_of run = snd (snd run)"

fun is_hook_call :: "('m, 'h, 'e) event \<Rightarrow> bool" where
  "is_hook_call (ExecuteActions shadow actions r) = True"
| "is_hook_call ev = False"

fun is_migration_call :: "('m, 'h, 'e) event \<Rightarrow> bool" where
  "is_migration_call (RunCommittedMigration m logSuffix r) = True"
| "is_migration_call ev = False"

fun is_ledger_read :: "('m, 'h, 'e) event \<Rightarrow> bool" where
  "is_ledger_read (GetLastMigration r) = True"
| "is_ledger_read (GetMigrationsAfter lastMigration r) = True"
| "is_ledger_read ev = False"

fun is_status_line :: "('m, 'h, 'e) event \<Rightarrow> bool" where
  "is_status_line (LoggerInfo message r) = True"
| "is_status_line ev = False"

text \<open>The \<open>executeActions\<close> calls of a run, in order; likewise the other kinds of call.\<close>

definition hook_calls :: "('m, 'h, 'e) event list \<Rightarrow> ('m, 'h, 'e) event list" where
  "hook_calls t = filter is_hook_call t"

definition migration_calls :: "('m, 'h, 'e) event list \<Rightarrow> ('m, 'h, 'e) event list" where
  "migration_calls t = filter is_migration_call t"

definition status_lines :: "('m, 'h, 'e) event list \<Rightarrow> ('m, 'h, 'e) event list" where
  "status_lines t = filter is_status_line t"

text \<open>A \<open>runCommittedMigration\<close> call that resolved.\<close>

abbreviation ran :: "string \<Rightarrow> 'm \<Rightarrow> ('m, 'h, 'e) event" where
  "ran logSuffix m \<equiv> RunCommittedMigration m logSuffix (Inr ())"

text \<open>
  In every run the call of line 44 (the before phase) is the first \<open>executeActions\<close>
  call and the call of line 61 (the after phase) is the second one: the calls carry no
  mark of their place in the program, and the two action lists may be equal.
\<close>

definition before_phase_invoked :: "'h ParsedSettings \<Rightarrow> bool \<Rightarrow> ('m, 'h, 'e) event list \<Rightarrow> bool" where
  "before_phase_invoked p shadow t =
     (case hook_calls t of
        ExecuteActions sh actions r # rest \<Rightarrow> sh = shadow \<and> actions = beforeAllMigrations p
      | _ \<Rightarrow> False)"

definition before_phase_resolved :: "('m, 'h, 'e) event list \<Rightarrow> bool" where
  "before_phase_resolved t =
     (case hook_calls t of ExecuteActions sh actions (Inr u) # rest \<Rightarrow> True | _ \<Rightarrow> False)"

definition after_phase_invoked :: "'h ParsedSettings \<Rightarrow> bool \<Rightarrow> ('m, 'h, 'e) event list \<Rightarrow> bool" where
  "after_phase_invoked p shadow t =
     (case hook_calls t of
        [first, ExecuteActions sh actions r] \<Rightarrow> sh = shadow \<and> actions = afterAllMigrations p
      | _ \<Rightarrow> False)"

subsection \<open>The paths through a run\<close>

text \<open>
  Every run of the closure takes one of seven paths, told apart by the first call that
  rejects; every run of \<open>_migrate\<close> fails before the closure or takes one of them.
\<close>

datatype ('m, 'e) body_path =
    LastMigrationFailed "'e error"
  | MigrationsAfterFailed "'m option" "'e error"
  | BeforeFailed "'m option" "'m list" "'e error"
  | MigrationFailed "'m option" "'m list" nat "'e error"
  | AfterFailed "'m option" "'m list" "'e error"
  | StatusFailed "'m option" "'m list" "'e error"
  | Completed "'m option" "'m list"

fun body_path_ok :: "bool \<Rightarrow> ('m, 'e) body_path \<Rightarrow> bool" where
  "body_path_ok force (LastMigrationFailed e) = True"
| "body_path_ok force (MigrationsAfterFailed lastM e) = True"
| "body_path_ok force (BeforeFailed lastM batch e) = (batch \<noteq> [] \<or> force)"
| "body_path_ok force (MigrationFailed lastM batch k e) = (k < length batch)"
| "body_path_ok force (AfterFailed lastM batch e) = (batch \<noteq> [] \<or> force)"
| "body_path_ok force (StatusFailed lastM batch e) = True"
| "body_path_ok force (Completed lastM batch) = True"

fun body_result :: "('m, 'e) body_path \<Rightarrow> 'e error + unit" where
  "body_result (LastMigrationFailed e) = Inl e"
| "body_result (MigrationsAfterFailed lastM e) = Inl e"
| "body_result (BeforeFailed lastM batch e) = Inl e"
| "body_result (MigrationFailed lastM batch k e) = Inl e"
| "body_result (AfterFailed lastM batch e) = Inl e"
| "body_result (StatusFailed lastM batch e) = Inl e"
| "body_result (Completed lastM batch) = Inr ()"

definition hook_ok :: "bool \<Rightarrow> bool \<Rightarrow> 'h list \<Rightarrow> ('m, 'h, 'e) event list" where
  "hook_ok should shadow actions = (if should then [ExecuteActions shadow actions (Inr ())] else [])"

fun body_trace ::
  "'h ParsedSettings \<Rightarrow> bool \<Rightarrow> bool \<Rightarrow> string \<Rightarrow> ('m, 'e) body_path \<Rightarrow> ('m, 'h, 'e) event list"
where
  "body_trace p shadow force sfx (LastMigrationFailed e) = [GetLastMigration (Inl e)]"
| "body_trace p shadow force sfx (MigrationsAfterFailed lastM e) =
     [GetLastMigration (Inr lastM), GetMigrationsAfter lastM (Inl e)]"
| "body_trace p shadow force sfx (BeforeFailed lastM batch e) =
     [GetLastMigration (Inr lastM), GetMigrationsAfter lastM (Inr batch),
      ExecuteActions shadow (beforeAllMigrations p) (Inl e)]"
| "body_trace p shadow force sfx (MigrationFailed lastM batch k e) =
     [GetLastMigration (Inr lastM), GetMigrationsAfter lastM (Inr batch),
      ExecuteActions shadow (beforeAllMigrations p) (Inr ())] @
     map (ran sfx) (take k batch) @ [RunCommittedMigration (batch ! k) sfx (Inl e)]"
| "body_trace p shadow force sfx (AfterFailed lastM batch e) =
     [GetLastMigration (Inr lastM), GetMigrationsAfter lastM (Inr batch),
      ExecuteActions shadow (beforeAllMigrations p) (Inr ())] @
     map (ran sfx) batch @ [ExecuteActions shadow (afterAllMigrations p) (Inl e)]"
| "body_trace p shadow force sfx (StatusFailed lastM batch e) =
     [GetLastMigration (Inr lastM), GetMigrationsAfter lastM (Inr batch)] @
     hook_ok (batch \<noteq> [] \<or> force) shadow (beforeAllMigrations p) @
     map (ran sfx) batch @
     hook_ok (batch \<noteq> [] \<or> force) shadow (afterAllMigrations p) @
     [LoggerInfo (status_line sfx batch lastM) (Inl e)]"
| "body_trace p shadow force sfx (Completed lastM batch) =
     [GetLastMigration (Inr lastM), GetMigrationsAfter lastM (Inr batch)] @
     hook_ok (batch \<noteq> [] \<or> force) shadow (beforeAllMigrations p) @
     map (ran sfx) batch @
     hook_ok (batch \<noteq> [] \<or> force) shadow (afterAllMigrations p) @
     [LoggerInfo (status_line sfx batch lastM) (Inr ())]"

datatype ('m, 'e) run_path =
    NoConnectionString
  | ConnectFailed "'e error"
  | LockFailed "'e error"
  | Locked "('m, 'e) body_path"

fun run_path_ok :: "bool \<Rightarrow> ('m, 'e) run_path \<Rightarrow> bool" where
  "run_path_ok force (Locked q) = body_path_ok force q"
| "run_path_ok force q = True"

fun run_result :: "('m, 'e) run_path \<Rightarrow> 'e error + unit" where
  "run_result NoConnectionString = Inl (Error ''Could not determine connection string'')"
| "run_result (ConnectFailed e) = Inl e"
| "run_result (LockFailed e) = Inl e"
| "run_result (Locked q) = body_result q"

fun run_trace ::
  "'h ParsedSettings \<Rightarrow> bool \<Rightarrow> bool \<Rightarrow> string \<Rightarrow> string \<Rightarrow> ('m, 'e) run_path \<Rightarrow>
   ('m, 'h, 'e) event list"
where
  "run_trace p shadow force connStr sfx NoConnectionString = []"
| "run_trace p shadow force connStr sfx (ConnectFailed e) = [Connect connStr (Inl e)]"
| "run_trace p shadow force connStr sfx (LockFailed e) =
     [Connect connStr (Inr ()), Lock (Inl e), Release]"
| "run_trace p shadow force connStr sfx (Locked q) =
     Connect connStr (Inr ()) # Lock (Inr ()) # body_trace p shadow force sfx q @ [Unlock, Release]"

text \<open>
  A call made by the closure of lines 35 to 76: a ledger read, a hook call, a migration
  call or the status line.
\<close>

definition is_work :: "('m, 'h, 'e) event \<Rightarrow> bool" where
  "is_work ev = (is_ledger_read ev \<or> is_hook_call ev \<or> is_migration_call ev \<or> is_status_line ev)"

text \<open>
  Every rejected \<open>runCommittedMigration\<close> call in \<open>t\<close> is a rejection that the runner of
  \<open>env\<close> produces for that migration.
\<close>

definition genuine :: "('w, 's, 'h, 'c, 'x, 'm, 'e) env \<Rightarrow> ('m, 'h, 'e) event list \<Rightarrow> bool" where
  "genuine env t =
     (\<forall>m sfx e. RunCommittedMigration m sfx (Inl e) \<in> set t \<longrightarrow>
        (\<exists>c p x w0 w1. runCommittedMigration_impl env c p x m sfx w0 = (Inl e, w1)))"

fun called_migrations :: "('m, 'h, 'e) event list \<Rightarrow> 'm list" where
  "called_migrations [] = []"
| "called_migrations (RunCommittedMigration m logSuffix r # t) = m # called_migrations t"
| "called_migrations (ev # t) = called_migrations t"

subsection \<open>A small world for concrete runs\<close>

text \<open>
  The world is the list of committed migrations, oldest first; migrations are numbers.
  The ledger reads the last one and the rest of the catalog after it, the runner commits
  every migration but the one numbered 0, which it rejects with an error that carries
  the number, and a hook fails when one of its actions is the string fail.
\<close>

definition demo_settings :: "string list \<Rightarrow> string ParsedSettings" where
  "demo_settings before =
     \<lparr>connectionString = Some ''postgres://db'', shadowConnectionString = None,
      beforeAllMigrations = before, afterAllMigrations = [''after.sql'']\<rparr>"

definition demo_shadow_settings :: "string ParsedSettings" where
  "demo_shadow_settings =
     \<lparr>connectionString = Some ''postgres://db'',
      shadowConnectionString = Some ''postgres://shadow'',
      beforeAllMigrations = [], afterAllMigrations = []\<rparr>"

text \<open>The migration number that an error of the runner below carries.\<close>

definition carried_migration :: "nat error \<Rightarrow> nat option" where
  "carried_migration e = (case e of Thrown m \<Rightarrow> Some m | Error message \<Rightarrow> None)"

definition demo_env ::
  "nat list \<Rightarrow> (nat list, string ParsedSettings, string, unit, unit, nat, nat) env"
where
  "demo_env catalog =
     \<lparr>parseSettings_impl = (\<lambda>settings shadow w. (Inr settings, w)),
      connect_impl = (\<lambda>connStr p w. (Inr ((), ()), w)),
      release_impl = (\<lambda>c w. w),
      lock_impl = (\<lambda>c w. (Inr (), w)),
      unlock_impl = (\<lambda>c w. w),
      getLastMigration_impl = (\<lambda>c p w. (Inr (if w = [] then None else Some (last w)), w)),
      getMigrationsAfter_impl = (\<lambda>p lastMigration w.
        (case lastMigration of
           None \<Rightarrow> Inr catalog
         | Some m \<Rightarrow> if m \<in> set catalog then Inr (tl (dropWhile (\<lambda>x. x \<noteq> m) catalog))
                     else Inl (Error ''unknown migration''), w)),
      executeActions_impl = (\<lambda>p shadow actions w.
        (if ''fail'' \<in> set actions then Inl (Error ''action failed'') else Inr (), w)),
      runCommittedMigration_impl = (\<lambda>c p x m logSuffix w.
        if m = 0 then (Inl (Thrown m), w) else (Inr (), w @ [m])),
      logger_info_impl = (\<lambda>message w. (Inr (), w))\<rparr>"

section \<open>Properties\<close>

subsection \<open>The loop and the closure\<close>

lemma await_Inl: "m w = (Inl e, w1, t1) \<Longrightarrow> await m k w = (Inl e, w1, t1)"
  by (simp add: await_def)

lemma await_Inr:
  "m w = (Inr v, w1, t1) \<Longrightarrow> await m k w = (case k v w1 of (r, w2, t2) \<Rightarrow> (r, w2, t1 @ t2))"
  by (simp add: await_def)

lemma runCommittedMigration_event:
  "runCommittedMigration env c p x m sfx w = (r, w1, t) \<Longrightarrow> t = [RunCommittedMigration m sfx r]"
  by (auto simp: runCommittedMigration_def split: prod.splits)

lemma for_of_run_shape:
  "for_of batch (\<lambda>m. runCommittedMigration env c p x m sfx) w = (r, w', t) \<Longrightarrow>
   (r = Inr () \<and> t = map (ran sfx) batch) \<or>
   (\<exists>k e. k < length batch \<and> r = Inl e \<and>
      t = map (ran sfx) (take k batch) @ [RunCommittedMigration (batch ! k) sfx (Inl e)])"
proof (induction batch arbitrary: w r w' t)
  case Nil
  then show ?case by simp
next
  case (Cons m ms)
  obtain r1 w1 t1 where first: "runCommittedMigration env c p x m sfx w = (r1, w1, t1)"
    by (cases "runCommittedMigration env c p x m sfx w") auto
  have t1: "t1 = [RunCommittedMigration m sfx r1]"
    using first by (rule runCommittedMigration_event)
  show ?case
  proof (cases r1)
    case (Inl e)
    with Cons.prems first t1 have "r = Inl e" "t = [RunCommittedMigration m sfx (Inl e)]"
      by auto
    then have "0 < length (m # ms) \<and> r = Inl e \<and>
      t = map (ran sfx) (take 0 (m # ms)) @ [RunCommittedMigration ((m # ms) ! 0) sfx (Inl e)]"
      by simp
    then show ?thesis by blast
  next
    case (Inr u)
    obtain r2 w2 t2 where rest:
      "for_of ms (\<lambda>m. runCommittedMigration env c p x m sfx) w1 = (r2, w2, t2)"
      by (cases "for_of ms (\<lambda>m. runCommittedMigration env c p x m sfx) w1") auto
    from Cons.prems first Inr rest t1 have eq: "r = r2" "t = ran sfx m # t2"
      by auto
    from Cons.IH [OF rest] show ?thesis
    proof
      assume "r2 = Inr () \<and> t2 = map (ran sfx) ms"
      with eq show ?thesis by simp
    next
      assume "\<exists>k e. k < length ms \<and> r2 = Inl e \<and>
        t2 = map (ran sfx) (take k ms) @ [RunCommittedMigration (ms ! k) sfx (Inl e)]"
      then obtain k e where k: "k < length ms" "r2 = Inl e"
        "t2 = map (ran sfx) (take k ms) @ [RunCommittedMigration (ms ! k) sfx (Inl e)]"
        by blast
      with eq have "Suc k < length (m # ms) \<and> r = Inl e \<and>
        t = map (ran sfx) (take (Suc k) (m # ms)) @
            [RunCommittedMigration ((m # ms) ! Suc k) sfx (Inl e)]"
        by simp
      then show ?thesis by blast
    qed
  qed
qed

lemma hook_step:
  "\<exists>r w1. (if should then executeActions env p shadow actions else skip) w =
     (r, w1, if should then [ExecuteActions shadow actions r] else []) \<and> (\<not> should \<longrightarrow> r = Inr ())"
  by (auto simp: executeActions_def skip_def split: prod.splits)

lemma locked_body_path:
  "\<exists>q. body_path_ok force q \<and>
       result_of (locked_body env p shadow force sfx c x w) = body_result q \<and>
       events_of (locked_body env p shadow force sfx c x w) = body_trace p shadow force sfx q"
proof -
  obtain r1 w1 where gl: "getLastMigration_impl env c p w = (r1, w1)"
    by (cases "getLastMigration_impl env c p w") auto
  then have call1: "getLastMigration env c p w = (r1, w1, [GetLastMigration r1])"
    by (simp add: getLastMigration_def)
  show ?thesis
  proof (cases r1)
    case (Inl e)
    with call1 have "locked_body env p shadow force sfx c x w = (Inl e, w1, [GetLastMigration (Inl e)])"
      by (simp add: locked_body_def await_Inl)
    then show ?thesis
      by (intro exI [of _ "LastMigrationFailed e"]) (simp add: result_of_def events_of_def)
  next
    case lastM: (Inr lastM)
    obtain r2 w2 where "getMigrationsAfter_impl env p lastM w1 = (r2, w2)"
      by (cases "getMigrationsAfter_impl env p lastM w1") auto
    then have call2: "getMigrationsAfter env p lastM w1 = (r2, w2, [GetMigrationsAfter lastM r2])"
      by (simp add: getMigrationsAfter_def)
    show ?thesis
    proof (cases r2)
      case (Inl e)
      with call1 call2 lastM have "locked_body env p shadow force sfx c x w =
        (Inl e, w2, [GetLastMigration (Inr lastM), GetMigrationsAfter lastM (Inl e)])"
        by (simp add: locked_body_def await_Inl await_Inr)
      then show ?thesis
        by (intro exI [of _ "MigrationsAfterFailed lastM e"]) (simp add: result_of_def events_of_def)
    next
      case batch: (Inr batch)
      define should where "should = (batch \<noteq> [] \<or> force)"
      obtain r3 w3 where call3:
        "(if should then executeActions env p shadow (beforeAllMigrations p) else skip) w2 =
           (r3, w3, if should then [ExecuteActions shadow (beforeAllMigrations p) r3] else [])"
        and skipped3: "\<not> should \<longrightarrow> r3 = Inr ()"
        using hook_step [of should env p shadow "beforeAllMigrations p" w2] by blast
      show ?thesis
      proof (cases r3)
        case (Inl e)
        with skipped3 have should by auto
        with call1 call2 call3 lastM batch Inl have "locked_body env p shadow force sfx c x w =
          (Inl e, w3, [GetLastMigration (Inr lastM), GetMigrationsAfter lastM (Inr batch),
             ExecuteActions shadow (beforeAllMigrations p) (Inl e)])"
          by (simp add: locked_body_def await_Inl await_Inr should_def)
        with \<open>should\<close> show ?thesis
          by (intro exI [of _ "BeforeFailed lastM batch e"])
             (simp add: result_of_def events_of_def should_def)
      next
        case before: (Inr u3)
        obtain r4 w4 t4 where call4:
          "for_of batch (\<lambda>m. runCommittedMigration env c p x m sfx) w3 = (r4, w4, t4)"
          by (cases "for_of batch (\<lambda>m. runCommittedMigration env c p x m sfx) w3") auto
        from for_of_run_shape [OF call4] show ?thesis
        proof
          assume "\<exists>k e. k < length batch \<and> r4 = Inl e \<and>
            t4 = map (ran sfx) (take k batch) @ [RunCommittedMigration (batch ! k) sfx (Inl e)]"
          then obtain k e where k: "k < length batch" "r4 = Inl e"
            "t4 = map (ran sfx) (take k batch) @ [RunCommittedMigration (batch ! k) sfx (Inl e)]"
            by blast
          then have should by (auto simp: should_def)
          with call1 call2 call3 call4 lastM batch before k
          have "locked_body env p shadow force sfx c x w =
            (Inl e, w4, body_trace p shadow force sfx (MigrationFailed lastM batch k e))"
            by (simp add: locked_body_def await_Inl await_Inr should_def)
          with k(1) show ?thesis
            by (intro exI [of _ "MigrationFailed lastM batch k e"])
               (simp add: result_of_def events_of_def)
        next
          assume ok4: "r4 = Inr () \<and> t4 = map (ran sfx) batch"
          obtain r5 w5 where call5:
            "(if should then executeActions env p shadow (afterAllMigrations p) else skip) w4 =
               (r5, w5, if should then [ExecuteActions shadow (afterAllMigrations p) r5] else [])"
            and skipped5: "\<not> should \<longrightarrow> r5 = Inr ()"
            using hook_step [of should env p shadow "afterAllMigrations p" w4] by blast
          show ?thesis
          proof (cases r5)
            case (Inl e)
            with skipped5 have should by auto
            with call1 call2 call3 call4 call5 lastM batch before ok4 Inl
            have "locked_body env p shadow force sfx c x w =
              (Inl e, w5, body_trace p shadow force sfx (AfterFailed lastM batch e))"
              by (simp add: locked_body_def await_Inl await_Inr should_def)
            with \<open>should\<close> show ?thesis
              by (intro exI [of _ "AfterFailed lastM batch e"])
                 (simp add: result_of_def events_of_def should_def)
          next
            case after: (Inr u5)
            obtain r6 w6 where
              "logger_info_impl env (status_line sfx batch lastM) w5 = (r6, w6)"
              by (cases "logger_info_impl env (status_line sfx batch lastM) w5") auto
            then have call6: "logger_info env (status_line sfx batch lastM) w5 =
                (r6, w6, [LoggerInfo (status_line sfx batch lastM) r6])"
              by (simp add: logger_info_def)
            have run: "locked_body env p shadow force sfx c x w =
              (r6, w6,
               [GetLastMigration (Inr lastM), GetMigrationsAfter lastM (Inr batch)] @
               hook_ok (batch \<noteq> [] \<or> force) shadow (beforeAllMigrations p) @
               map (ran sfx) batch @
               hook_ok (batch \<noteq> [] \<or> force) shadow (afterAllMigrations p) @
               [LoggerInfo (status_line sfx batch lastM) r6])"
            proof (cases should)
              case True
              with call1 call2 call3 call4 call5 call6 lastM batch before ok4 after
              show ?thesis
                by (simp add: locked_body_def await_Inl await_Inr should_def hook_ok_def)
            next
              case False
              with call1 call2 call3 call4 call5 call6 lastM batch before ok4 after
              show ?thesis
                by (simp add: locked_body_def await_Inl await_Inr should_def hook_ok_def
                      skip_def)
            qed
            show ?thesis
            proof (cases r6)
              case (Inl e)
              with run show ?thesis
                by (intro exI [of _ "StatusFailed lastM batch e"])
                   (simp add: result_of_def events_of_def)
            next
              case (Inr u6)
              with run show ?thesis
                by (intro exI [of _ "Completed lastM batch"])
                   (simp add: result_of_def events_of_def)
            qed
          qed
        qed
      qed
    qed
  qed
qed

subsection \<open>The whole run\<close>

lemma u_migrate_path:
  assumes "shadow = default_arg False shadowArg"
    and "force = default_arg False forceActionsArg"
    and "sel = (if shadow then shadowConnectionString p else connectionString p)"
    and "sfx = (if shadow then ''[shadow]'' else '''')"
  shows "\<exists>q. run_path_ok force q \<and> (q = NoConnectionString \<longleftrightarrow> falsy sel) \<and>
           result_of (u_migrate env p shadowArg forceActionsArg w) = run_result q \<and>
           events_of (u_migrate env p shadowArg forceActionsArg w) =
             run_trace p shadow force (the sel) sfx q"
proof (cases "falsy sel")
  case True
  with assms have "u_migrate env p shadowArg forceActionsArg w =
    (Inl (Error ''Could not determine connection string''), w, [])"
    by (simp add: u_migrate_def throw_def)
  with True show ?thesis
    by (intro exI [of _ NoConnectionString]) (simp add: result_of_def events_of_def)
next
  case False
  define body where "body = (\<lambda>pgClient context.
     withAdvisoryLock env pgClient (locked_body env p shadow force sfx pgClient context))"
  from False assms have unfold:
    "u_migrate env p shadowArg forceActionsArg w = withClient env (the sel) p body w"
    by (simp add: u_migrate_def body_def)
  obtain r1 w1 where conn: "connect_impl env (the sel) p w = (r1, w1)"
    by (cases "connect_impl env (the sel) p w") auto
  show ?thesis
  proof (cases r1)
    case (Inl e)
    with conn unfold have "u_migrate env p shadowArg forceActionsArg w =
      (Inl e, w1, [Connect (the sel) (Inl e)])"
      by (simp add: withClient_def)
    with False show ?thesis
      by (intro exI [of _ "ConnectFailed e"]) (simp add: result_of_def events_of_def)
  next
    case (Inr cx)
    obtain c x where cx: "cx = (c, x)" by (cases cx) auto
    obtain r2 w2 where lock: "lock_impl env c w1 = (r2, w2)"
      by (cases "lock_impl env c w1") auto
    show ?thesis
    proof (cases r2)
      case (Inl e)
      with conn unfold Inr cx lock have "u_migrate env p shadowArg forceActionsArg w =
        (Inl e, release_impl env c w2, [Connect (the sel) (Inr ()), Lock (Inl e), Release])"
        by (simp add: withClient_def withAdvisoryLock_def body_def)
      with False show ?thesis
        by (intro exI [of _ "LockFailed e"]) (simp add: result_of_def events_of_def)
    next
      case locked: (Inr u)
      obtain r3 w3 t3 where inner: "locked_body env p shadow force sfx c x w2 = (r3, w3, t3)"
        by (cases "locked_body env p shadow force sfx c x w2") auto
      from locked_body_path [of force env p shadow sfx c x w2] inner
      obtain q where q: "body_path_ok force q" "r3 = body_result q"
        "t3 = body_trace p shadow force sfx q"
        by (auto simp: result_of_def events_of_def)
      from conn unfold Inr cx lock locked inner
      have "u_migrate env p shadowArg forceActionsArg w =
        (r3, release_impl env c (unlock_impl env c w3),
         Connect (the sel) (Inr ()) # Lock (Inr ()) # t3 @ [Unlock, Release])"
        by (simp add: withClient_def withAdvisoryLock_def body_def)
      with False q show ?thesis
        by (intro exI [of _ "Locked q"]) (simp add: result_of_def events_of_def)
    qed
  qed
qed

lemma hook_calls_ran [simp]: "filter is_hook_call (map (ran sfx) ms) = []"
  by (induction ms) auto

lemma migration_calls_ran [simp]: "filter is_migration_call (map (ran sfx) ms) = map (ran sfx) ms"
  by (induction ms) auto

lemma status_lines_ran [simp]: "filter is_status_line (map (ran sfx) ms) = []"
  by (induction ms) auto

lemma run_path_of:
  assumes "u_migrate env p sa fa w = (r, w', t)"
    and "shadow = default_arg False sa"
    and "force = default_arg False fa"
    and "sfx = (if shadow then ''[shadow]'' else '''')"
  obtains q connStr where "run_path_ok force q" and "r = run_result q"
    and "t = run_trace p shadow force connStr sfx q"
proof -
  from u_migrate_path [where env = env and w = w and forceActionsArg = fa and shadowArg = sa
      and p = p, OF assms(2) assms(3) refl assms(4)]
  obtain q where "run_path_ok force q"
    "result_of (u_migrate env p sa fa w) = run_result q"
    "events_of (u_migrate env p sa fa w) = run_trace p shadow force
               (the (if shadow then shadowConnectionString p else connectionString p)) sfx q"
    by blast
  with assms(1) that show ?thesis
    by (simp add: result_of_def events_of_def)
qed

lemma called_migrations_append [simp]:
  "called_migrations (xs @ ys) = called_migrations xs @ called_migrations ys"
  by (induction xs rule: called_migrations.induct) simp_all

lemma called_migrations_ran [simp]: "called_migrations (map (ran sfx) ms) = ms"
  by (induction ms) simp_all

lemmas trace_simps = hook_calls_def migration_calls_def status_lines_def hook_ok_def

lemma failed_call_not_ran: "RunCommittedMigration m sfx (Inl e) \<notin> set (map (ran sfx') ms)"
  by (induction ms) simp_all

lemma ran_neq_failed:
  "(map (ran sfx) xs @ [RunCommittedMigration m sfx (Inl e)] :: ('m, 'h, 'e) event list) \<noteq>
   map (ran sfx') ys"
proof
  define failed :: "('m, 'h, 'e) event" where "failed = RunCommittedMigration m sfx (Inl e)"
  assume "map (ran sfx) xs @ [RunCommittedMigration m sfx (Inl e)] =
    (map (ran sfx') ys :: ('m, 'h, 'e) event list)"
  then have eq: "map (ran sfx) xs @ [failed] = map (ran sfx') ys"
    by (simp add: failed_def)
  have "failed \<in> set (map (ran sfx) xs @ [failed])"
    by simp
  then have "failed \<in> set (map (ran sfx') ys)"
    unfolding eq .
  then show False
    by (auto simp: failed_def)
qed

lemmas phase_defs = before_phase_invoked_def before_phase_resolved_def after_phase_invoked_def

lemma body_trace_work: "ev \<in> set (body_trace p shadow force sfx b) \<Longrightarrow> is_work ev"
  by (cases b) (auto simp: is_work_def hook_ok_def split: if_splits)

subsection \<open>Rejected migration calls come from the runner\<close>

lemma genuine_append: "genuine env (a @ b) \<longleftrightarrow> genuine env a \<and> genuine env b"
  by (auto simp: genuine_def)

lemma genuine_await:
  assumes "genuine env (events_of (m w))"
    and "\<And>v w1. genuine env (events_of (k v w1))"
  shows "genuine env (events_of (await m k w))"
proof -
  obtain r w1 t1 where first: "m w = (r, w1, t1)"
    by (cases "m w") auto
  show ?thesis
  proof (cases r)
    case (Inl e)
    with first assms(1) show ?thesis
      by (simp add: await_def events_of_def)
  next
    case (Inr v)
    obtain r2 w2 t2 where rest: "k v w1 = (r2, w2, t2)"
      by (cases "k v w1") auto
    from assms(2) [of v w1] rest have "genuine env t2"
      by (simp add: events_of_def)
    with first Inr rest assms(1) show ?thesis
      by (simp add: await_def events_of_def genuine_append)
  qed
qed

lemma genuine_getLastMigration: "genuine env (events_of (getLastMigration env c p w))"
  by (simp add: getLastMigration_def events_of_def genuine_def split: prod.splits)

lemma genuine_getMigrationsAfter: "genuine env (events_of (getMigrationsAfter env p lastM w))"
  by (simp add: getMigrationsAfter_def events_of_def genuine_def split: prod.splits)

lemma genuine_hook:
  "genuine env (events_of ((if should then executeActions env p shadow actions else skip) w))"
  by (simp add: executeActions_def skip_def events_of_def genuine_def split: prod.splits)

lemma genuine_logger_info: "genuine env (events_of (logger_info env message w))"
  by (simp add: logger_info_def events_of_def genuine_def split: prod.splits)

lemma genuine_runCommittedMigration:
  "genuine env (events_of (runCommittedMigration env c p x m sfx w))"
proof -
  obtain r w1 where call: "runCommittedMigration_impl env c p x m sfx w = (r, w1)"
    by (cases "runCommittedMigration_impl env c p x m sfx w") auto
  then have "events_of (runCommittedMigration env c p x m sfx w) =
      [RunCommittedMigration m sfx r]"
    by (simp add: runCommittedMigration_def events_of_def)
  moreover have "genuine env [RunCommittedMigration m sfx r]"
    unfolding genuine_def using call by simp blast
  ultimately show ?thesis by simp
qed

lemma genuine_for_of:
  "genuine env (events_of (for_of batch (\<lambda>m. runCommittedMigration env c p x m sfx) w))"
proof (induction batch arbitrary: w)
  case Nil
  show ?case by (simp add: events_of_def genuine_def)
next
  case (Cons m ms)
  obtain r1 w1 t1 where first: "runCommittedMigration env c p x m sfx w = (r1, w1, t1)"
    by (cases "runCommittedMigration env c p x m sfx w") auto
  with genuine_runCommittedMigration [of env c p x m sfx w] have t1: "genuine env t1"
    by (simp add: events_of_def)
  show ?case
  proof (cases r1)
    case (Inl e)
    with first t1 show ?thesis by (simp add: events_of_def)
  next
    case (Inr u)
    obtain r2 w2 t2 where rest:
      "for_of ms (\<lambda>m. runCommittedMigration env c p x m sfx) w1 = (r2, w2, t2)"
      by (cases "for_of ms (\<lambda>m. runCommittedMigration env c p x m sfx) w1") auto
    with Cons.IH [of w1] have "genuine env t2"
      by (simp add: events_of_def)
    with first Inr rest t1 show ?thesis
      by (simp add: events_of_def genuine_append)
  qed
qed

lemma genuine_locked_body:
  "genuine env (events_of (locked_body env p shadow force sfx c x w))"
  unfolding locked_body_def Let_def
  by (intro genuine_await genuine_getLastMigration genuine_getMigrationsAfter genuine_hook
      genuine_for_of genuine_logger_info)

lemma genuine_wrap:
  "genuine env t \<Longrightarrow> \<not> is_migration_call a \<Longrightarrow> \<not> is_migration_call b \<Longrightarrow>
   genuine env (a # t @ [b])"
  by (auto simp: genuine_def)

lemma genuine_withAdvisoryLock:
  assumes "\<And>w1. genuine env (events_of (body w1))"
  shows "genuine env (events_of (withAdvisoryLock env c body w))"
proof -
  obtain r w1 where lock: "lock_impl env c w = (r, w1)"
    by (cases "lock_impl env c w") auto
  show ?thesis
  proof (cases r)
    case (Inl e)
    with lock show ?thesis
      by (simp add: withAdvisoryLock_def events_of_def genuine_def)
  next
    case (Inr u)
    obtain r2 w2 t2 where inner: "body w1 = (r2, w2, t2)"
      by (cases "body w1") auto
    with assms [of w1] have "genuine env t2"
      by (simp add: events_of_def)
    then have "genuine env (Lock (Inr ()) # t2 @ [Unlock])"
      by (rule genuine_wrap) simp_all
    with lock Inr inner show ?thesis
      by (simp add: withAdvisoryLock_def events_of_def)
  qed
qed

lemma genuine_withClient:
  assumes "\<And>c x w1. genuine env (events_of (body c x w1))"
  shows "genuine env (events_of (withClient env connStr p body w))"
proof -
  obtain r w1 where conn: "connect_impl env connStr p w = (r, w1)"
    by (cases "connect_impl env connStr p w") auto
  show ?thesis
  proof (cases r)
    case (Inl e)
    with conn show ?thesis
      by (simp add: withClient_def events_of_def genuine_def)
  next
    case (Inr cx)
    obtain c x where cx: "cx = (c, x)" by (cases cx) auto
    obtain r2 w2 t2 where inner: "body c x w1 = (r2, w2, t2)"
      by (cases "body c x w1") auto
    with assms [of c x w1] have "genuine env t2"
      by (simp add: events_of_def)
    then have "genuine env (Connect connStr (Inr ()) # t2 @ [Release])"
      by (rule genuine_wrap) simp_all
    with conn Inr cx inner show ?thesis
      by (simp add: withClient_def events_of_def)
  qed
qed

lemma genuine_u_migrate: "genuine env (events_of (u_migrate env p shadowArg forceActionsArg w))"
proof -
  have "genuine env (events_of (throw e w))" for e
    by (simp add: throw_def events_of_def genuine_def)
  then show ?thesis
    unfolding u_migrate_def Let_def
    by (auto intro!: genuine_withClient genuine_withAdvisoryLock genuine_locked_body)
qed

subsection \<open>Concrete runs\<close>

lemmas run_defs = u_migrate_def default_arg_def falsy_def throw_def skip_def await_def
  withClient_def withAdvisoryLock_def locked_body_def getLastMigration_def
  getMigrationsAfter_def executeActions_def runCommittedMigration_def logger_info_def
  status_line_def decimal.simps digit_def demo_env_def demo_settings_def Let_def

lemma demo_run_ok:
  "u_migrate (demo_env [1, 2, 3]) (demo_settings [''before.sql'']) None None [] =
     (Inr (), [1, 2, 3],
      [Connect ''postgres://db'' (Inr ()), Lock (Inr ()),
       GetLastMigration (Inr None), GetMigrationsAfter None (Inr [1, 2, 3]),
       ExecuteActions False [''before.sql''] (Inr ()),
       RunCommittedMigration 1 '''' (Inr ()), RunCommittedMigration 2 '''' (Inr ()),
       RunCommittedMigration 3 '''' (Inr ()),
       ExecuteActions False [''after.sql''] (Inr ()),
       LoggerInfo ''graphile-migrate: 3 committed migrations executed'' (Inr ()),
       Unlock, Release])"
  by (simp add: run_defs)

lemma demo_run_again:
  "u_migrate (demo_env [1, 2, 3]) (demo_settings [''before.sql'']) None None [1, 2, 3] =
     (Inr (), [1, 2, 3],
      [Connect ''postgres://db'' (Inr ()), Lock (Inr ()),
       GetLastMigration (Inr (Some 3)), GetMigrationsAfter (Some 3) (Inr []),
       LoggerInfo ''graphile-migrate: Already up to date'' (Inr ()),
       Unlock, Release])"
  by (simp add: run_defs)

lemma demo_run_failing:
  "u_migrate (demo_env [1, 0, 3]) (demo_settings [''before.sql'']) None None [] =
     (Inl (Thrown 0), [1],
      [Connect ''postgres://db'' (Inr ()), Lock (Inr ()),
       GetLastMigration (Inr None), GetMigrationsAfter None (Inr [1, 0, 3]),
       ExecuteActions False [''before.sql''] (Inr ()),
       RunCommittedMigration 1 '''' (Inr ()), RunCommittedMigration 0 '''' (Inl (Thrown 0)),
       Unlock, Release])"
  by (simp add: run_defs)

lemma demo_run_before_fails:
  "u_migrate (demo_env [1, 2, 3]) (demo_settings [''fail'']) None None [] =
     (Inl (Error ''action failed''), [],
      [Connect ''postgres://db'' (Inr ()), Lock (Inr ()),
       GetLastMigration (Inr None), GetMigrationsAfter None (Inr [1, 2, 3]),
       ExecuteActions False [''fail''] (Inl (Error ''action failed'')),
       Unlock, Release])"
  by (simp add: run_defs)

lemma demo_run_no_connection_string:
  "u_migrate (demo_env [1, 2, 3]) (demo_settings [''before.sql'']) (Some True) (Some True) [] =
     (Inl (Error ''Could not determine connection string''), [], [])"
  by (simp add: run_defs)

lemma demo_run_fresh:
  "u_migrate (demo_env []) (demo_settings [''before.sql'']) None None [] =
     (Inr (), [],
      [Connect ''postgres://db'' (Inr ()), Lock (Inr ()),
       GetLastMigration (Inr None), GetMigrationsAfter None (Inr []),
       LoggerInfo (''graphile-migrate: Up to date '' @ em_dash @ '' no committed migrations to run'') (Inr ()),
       Unlock, Release])"
  by (simp add: run_defs)

lemma demo_run_shadow:
  "u_migrate (demo_env [1, 2, 3]) demo_shadow_settings (Some True) None [1, 2] =
     (Inr (), [1, 2, 3],
      [Connect ''postgres://shadow'' (Inr ()), Lock (Inr ()),
       GetLastMigration (Inr (Some 2)), GetMigrationsAfter (Some 2) (Inr [3]),
       ExecuteActions True [] (Inr ()),
       RunCommittedMigration 3 ''[shadow]'' (Inr ()),
       ExecuteActions True [] (Inr ()),
       LoggerInfo ''graphile-migrate[shadow]: 1 committed migrations executed'' (Inr ()),
       Unlock, Release])"
  by (simp add: run_defs demo_shadow_settings_def)

lemma demo_runner_identifies: "runner_identifies (demo_env catalog) carried_migration"
  by (auto simp: runner_identifies_def demo_env_def carried_migration_def split: if_splits)

lemma demo_migrate:
  "migrate (demo_env [1, 2, 3]) (demo_settings [''before.sql'']) None None [1, 2] =
     (Inr (), [1, 2, 3],
      [ParseSettings False (Inr ()),
       Connect ''postgres://db'' (Inr ()), Lock (Inr ()),
       GetLastMigration (Inr (Some 2)), GetMigrationsAfter (Some 2) (Inr [3]),
       ExecuteActions False [''before.sql''] (Inr ()),
       RunCommittedMigration 3 '''' (Inr ()),
       ExecuteActions False [''after.sql''] (Inr ()),
       LoggerInfo ''graphile-migrate: 1 committed migrations executed'' (Inr ()),
       Unlock, Release])"
  by (simp add: migrate_def parseSettings_def run_defs)

lemma demo_migrate_flags:
  "migrate (demo_env [1, 2, 3]) demo_shadow_settings (Some True) (Some True) [1, 2, 3] =
     (Inr (), [1, 2, 3],
      [ParseSettings True (Inr ()),
       Connect ''postgres://shadow'' (Inr ()), Lock (Inr ()),
       GetLastMigration (Inr (Some 3)), GetMigrationsAfter (Some 3) (Inr []),
       ExecuteActions True [] (Inr ()),
       ExecuteActions True [] (Inr ()),
       LoggerInfo ''graphile-migrate[shadow]: Already up to date'' (Inr ()),
       Unlock, Release])"
  by (simp add: migrate_def parseSettings_def run_defs demo_shadow_settings_def)

lemma demo_run_logger_throws:
  "u_migrate ((demo_env [1, 2, 3])
       \<lparr>logger_info_impl := (\<lambda>message w. (Inl (Error ''log failed''), w))\<rparr>)
     (demo_settings [''before.sql'']) None None [1, 2, 3] =
     (Inl (Error ''log failed''), [1, 2, 3],
      [Connect ''postgres://db'' (Inr ()), Lock (Inr ()),
       GetLastMigration (Inr (Some 3)), GetMigrationsAfter (Some 3) (Inr []),
       LoggerInfo ''graphile-migrate: Already up to date'' (Inl (Error ''log failed'')),
       Unlock, Release])"
  by (simp add: run_defs)

section \<open>The claims\<close>

text \<open>
  C1, as the code has it. In every run in which \<open>getMigrationsAfter\<close> returns a batch:
  the before-phase hook actions are handed to \<open>executeActions\<close> if and only if the batch
  is non-empty or \<open>forceActions\<close> is true; the after-phase hook actions are handed to
  \<open>executeActions\<close> if and only if, in addition, the before-phase call and the
  \<open>runCommittedMigration\<close> call of every migration of the batch resolved; there is no
  \<open>executeActions\<close> call at all otherwise, and never more than two.
\<close>

theorem C1_hook_gating:
  assumes "u_migrate env p shadowArg forceActionsArg w = (r, w', t)"
    and "GetMigrationsAfter lastMigration (Inr batch) \<in> set t"
    and "shadow = default_arg False shadowArg"
    and "forceActions = default_arg False forceActionsArg"
    and "logSuffix = (if shadow then ''[shadow]'' else '''')"
  shows "(before_phase_invoked p shadow t \<longleftrightarrow> batch \<noteq> [] \<or> forceActions) \<and>
         (after_phase_invoked p shadow t \<longleftrightarrow>
            (batch \<noteq> [] \<or> forceActions) \<and> before_phase_resolved t \<and>
            migration_calls t = map (ran logSuffix) batch) \<and>
         (hook_calls t = [] \<longleftrightarrow> \<not> (batch \<noteq> [] \<or> forceActions)) \<and>
         length (hook_calls t) \<le> 2"
proof -
  from assms(1,3,4,5)
  obtain q connStr where q: "run_path_ok forceActions q" "r = run_result q"
    "t = run_trace p shadow forceActions connStr logSuffix q"
    by (rule run_path_of)
  show ?thesis
  proof (cases q)
    case (Locked b)
    show ?thesis
    proof (cases b)
      case (BeforeFailed lastM batch' e)
      with Locked q assms(2) have "batch' = batch" by simp
      with BeforeFailed Locked q show ?thesis
        by (simp add: trace_simps phase_defs)
    next
      case (MigrationFailed lastM batch' k e)
      with Locked q assms(2) have same: "batch' = batch"
        by (auto simp: failed_call_not_ran)
      with MigrationFailed Locked q have "batch \<noteq> []" by auto
      with MigrationFailed Locked q same show ?thesis
        by (simp add: trace_simps phase_defs ran_neq_failed)
    next
      case (AfterFailed lastM batch' e)
      with Locked q assms(2) have "batch' = batch" by auto
      with AfterFailed Locked q show ?thesis
        by (simp add: trace_simps phase_defs)
    next
      case (Completed lastM batch')
      with Locked q assms(2) have "batch' = batch"
        by (auto simp: hook_ok_def split: if_splits)
      with Completed Locked q show ?thesis
        by (simp add: trace_simps phase_defs)
    next
      case (StatusFailed lastM batch' e)
      with Locked q assms(2) have "batch' = batch"
        by (auto simp: hook_ok_def split: if_splits)
      with StatusFailed Locked q show ?thesis
        by (simp add: trace_simps phase_defs)
    qed (use Locked q assms(2) in \<open>simp_all\<close>)
  qed (use q assms(2) in \<open>simp_all\<close>)
qed

theorem C1_hook_gating_witness:
  "GetMigrationsAfter (Some 3) (Inr []) \<in> set (events_of
      (u_migrate (demo_env [1, 2, 3]) (demo_settings [''before.sql'']) None (Some True)
         [1, 2, 3])) \<and>
   before_phase_invoked (demo_settings [''before.sql'']) False (events_of
      (u_migrate (demo_env [1, 2, 3]) (demo_settings [''before.sql'']) None (Some True)
         [1, 2, 3])) \<and>
   after_phase_invoked (demo_settings [''before.sql'']) False (events_of
      (u_migrate (demo_env [1, 2, 3]) (demo_settings [''before.sql'']) None (Some True)
         [1, 2, 3])) \<and>
   hook_calls (events_of
      (u_migrate (demo_env [1, 2, 3]) (demo_settings [''before.sql'']) None None
         [1, 2, 3])) = []"
proof -
  define t :: "(nat, string, nat) event list" where
    "t = [Connect ''postgres://db'' (Inr ()), Lock (Inr ()),
       GetLastMigration (Inr (Some 3)), GetMigrationsAfter (Some 3) (Inr []),
       ExecuteActions False [''before.sql''] (Inr ()),
       ExecuteActions False [''after.sql''] (Inr ()),
       LoggerInfo ''graphile-migrate: Already up to date'' (Inr ()),
       Unlock, Release]"
  have forced: "u_migrate (demo_env [1, 2, 3]) (demo_settings [''before.sql'']) None (Some True)
      [1, 2, 3] = (Inr (), [1, 2, 3], t)"
    by (simp add: run_defs t_def)
  have batch: "GetMigrationsAfter (Some 3) (Inr []) \<in> set t"
    by (simp add: t_def)
  have resolved: "before_phase_resolved t"
    by (simp add: t_def before_phase_resolved_def hook_calls_def)
  have calls: "migration_calls t = map (ran '''') []"
    by (simp add: t_def migration_calls_def)
  from C1_hook_gating [OF forced batch refl refl refl] resolved calls
  have hooks: "before_phase_invoked (demo_settings [''before.sql'']) False t \<and>
      after_phase_invoked (demo_settings [''before.sql'']) False t"
    by (simp add: default_arg_def)
  note plain = demo_run_again
  have batch': "GetMigrationsAfter (Some 3) (Inr []) \<in>
      set [Connect ''postgres://db'' (Inr ()), Lock (Inr ()),
       GetLastMigration (Inr (Some 3)), GetMigrationsAfter (Some (3 :: nat)) (Inr []),
       LoggerInfo ''graphile-migrate: Already up to date'' (Inr ()),
       Unlock, (Release :: (nat, string, nat) event)]"
    by simp
  from C1_hook_gating [OF plain batch' refl refl refl]
  have none: "hook_calls [Connect ''postgres://db'' (Inr ()), Lock (Inr ()),
       GetLastMigration (Inr (Some 3)), GetMigrationsAfter (Some (3 :: nat)) (Inr []),
       LoggerInfo ''graphile-migrate: Already up to date'' (Inr ()),
       Unlock, (Release :: (nat, string, nat) event)] = []"
    by (simp add: default_arg_def)
  from batch hooks none show ?thesis
    unfolding forced plain events_of_def by simp
qed

text \<open>
  C1 as stated fails: here the batch is non-empty, and the after-phase actions are not
  handed to \<open>executeActions\<close>, because the before-phase call rejected.
\<close>

theorem C1_hook_gating_counterexample:
  "GetMigrationsAfter None (Inr [1, 2, 3]) \<in> set (events_of
      (u_migrate (demo_env [1, 2, 3]) (demo_settings [''fail'']) None None [])) \<and>
   \<not> (after_phase_invoked (demo_settings [''fail'']) False (events_of
          (u_migrate (demo_env [1, 2, 3]) (demo_settings [''fail'']) None None [])) \<longleftrightarrow>
        ([1, 2, 3 :: nat] \<noteq> [] \<or> False))"
  unfolding demo_run_before_fails events_of_def
  by (simp add: after_phase_invoked_def hook_calls_def)

text \<open>
  C2. In every run in which the before-phase \<open>executeActions\<close> call (the first
  \<open>executeActions\<close> call of the run) rejects, no migration of the pending batch is
  handed to \<open>runCommittedMigration\<close>, there is no second \<open>executeActions\<close> call (the
  after phase is never invoked), and the rejection is the outcome of \<open>_migrate\<close>.
\<close>

theorem C2_before_phase_failure:
  assumes "u_migrate env p shadowArg forceActionsArg w = (r, w', t)"
    and "hook_calls t = ExecuteActions sh actions (Inl e) # rest"
  shows "migration_calls t = [] \<and> rest = [] \<and> r = Inl e \<and>
         sh = default_arg False shadowArg \<and> actions = beforeAllMigrations p"
proof -
  define shadow where "shadow = default_arg False shadowArg"
  define force where "force = default_arg False forceActionsArg"
  define sfx where "sfx = (if shadow then ''[shadow]'' else '''')"
  from assms(1) shadow_def force_def sfx_def
  obtain q connStr where q: "run_path_ok force q" "r = run_result q"
    "t = run_trace p shadow force connStr sfx q"
    by (rule run_path_of)
  have "migration_calls t = [] \<and> rest = [] \<and> r = Inl e \<and>
         sh = shadow \<and> actions = beforeAllMigrations p"
  proof (cases q)
    case (Locked b)
    with q assms(2) show ?thesis
      by (cases b) (auto simp: trace_simps split: if_splits)
  qed (use q assms(2) in \<open>simp_all add: trace_simps\<close>)
  then show ?thesis by (simp add: shadow_def)
qed

theorem C2_before_phase_failure_witness:
  "hook_calls (events_of
      (u_migrate (demo_env [1, 2, 3]) (demo_settings [''fail'']) None None [])) =
     [ExecuteActions False [''fail''] (Inl (Error ''action failed''))] \<and>
   migration_calls (events_of
      (u_migrate (demo_env [1, 2, 3]) (demo_settings [''fail'']) None None [])) = [] \<and>
   result_of (u_migrate (demo_env [1, 2, 3]) (demo_settings [''fail'']) None None []) =
     Inl (Error ''action failed'')"
proof -
  note run = demo_run_before_fails
  have failed: "hook_calls [Connect ''postgres://db'' (Inr ()), Lock (Inr ()),
       GetLastMigration (Inr None), GetMigrationsAfter None (Inr [1, 2, 3]),
       ExecuteActions False [''fail''] (Inl (Error ''action failed'')),
       Unlock, Release] =
     (ExecuteActions False [''fail''] (Inl (Error ''action failed'')) # [] ::
        (nat, string, nat) event list)"
    by (simp add: hook_calls_def)
  from C2_before_phase_failure [OF run failed] failed
  show ?thesis unfolding run result_of_def events_of_def by simp
qed

text \<open>
  C3. In every run in which \<open>getMigrationsAfter\<close> returned a batch of \<open>n\<close> migrations and
  a \<open>runCommittedMigration\<close> call rejected, the rejected call is the one for the \<open>k\<close>-th
  migration of the batch for some \<open>k\<close> from 1 to \<open>n\<close>; \<open>runCommittedMigration\<close> was called
  for exactly the migrations 1 to \<open>k\<close>, in order, the calls before the \<open>k\<close>-th having
  resolved; the only \<open>executeActions\<close> call is the before-phase one (the after phase is
  never invoked); no status line is logged; the outcome of \<open>_migrate\<close> is the very error
  that the call for the \<open>k\<close>-th migration raised; and, the runner's errors carrying the
  identity of the migration they reject (its contract in the specification), that error
  names the \<open>k\<close>-th migration.
\<close>

theorem C3_migration_failure:
  assumes "u_migrate env p shadowArg forceActionsArg w = (r, w', t)"
    and "GetMigrationsAfter lastMigration (Inr batch) \<in> set t"
    and "RunCommittedMigration m sfx (Inl e) \<in> set t"
    and "runner_identifies env identity"
  shows "\<exists>k. 1 \<le> k \<and> k \<le> length batch \<and> m = batch ! (k - 1) \<and>
           migration_calls t =
             map (ran sfx) (take (k - 1) batch) @ [RunCommittedMigration m sfx (Inl e)] \<and>
           called_migrations t = take k batch \<and>
           hook_calls t =
             [ExecuteActions (default_arg False shadowArg) (beforeAllMigrations p) (Inr ())] \<and>
           status_lines t = [] \<and>
           r = Inl e \<and>
           identity e = Some (batch ! (k - 1))"
proof -
  define shadow where "shadow = default_arg False shadowArg"
  define force where "force = default_arg False forceActionsArg"
  define sfx' where "sfx' = (if shadow then ''[shadow]'' else '''')"
  from assms(1) shadow_def force_def sfx'_def
  obtain q connStr where q: "run_path_ok force q" "r = run_result q"
    "t = run_trace p shadow force connStr sfx' q"
    by (rule run_path_of)
  from genuine_u_migrate [of env p shadowArg forceActionsArg w] assms(1)
  have "genuine env t"
    by (simp add: events_of_def)
  with assms(3)
  obtain c p' x w0 w1 where "runCommittedMigration_impl env c p' x m sfx w0 = (Inl e, w1)"
    unfolding genuine_def by blast
  with assms(4) have named: "identity e = Some m"
    unfolding runner_identifies_def by blast
  have "\<exists>k. 1 \<le> k \<and> k \<le> length batch \<and> m = batch ! (k - 1) \<and>
           migration_calls t =
             map (ran sfx) (take (k - 1) batch) @ [RunCommittedMigration m sfx (Inl e)] \<and>
           called_migrations t = take k batch \<and>
           hook_calls t = [ExecuteActions shadow (beforeAllMigrations p) (Inr ())] \<and>
           status_lines t = [] \<and>
           r = Inl e \<and>
           identity e = Some (batch ! (k - 1))"
  proof (cases q)
    case (Locked b)
    show ?thesis
    proof (cases b)
      case (MigrationFailed lastM batch' k e')
      with Locked q assms(2) have batch: "batch' = batch"
        by (auto simp: failed_call_not_ran)
      from MigrationFailed Locked q assms(3) have same: "e' = e" "m = batch' ! k" "sfx' = sfx"
        by (auto simp: failed_call_not_ran)
      from MigrationFailed Locked q(1) batch have k: "k < length batch"
        by simp
      then have "take (Suc k) batch = take k batch @ [batch ! k]"
        by (simp add: take_Suc_conv_app_nth)
      with MigrationFailed Locked q batch same k named show ?thesis
        by (intro exI [of _ "Suc k"]) (simp add: trace_simps)
    next
      case (Completed lastM batch')
      with Locked q assms(3) show ?thesis
        by (auto simp: trace_simps failed_call_not_ran split: if_splits)
    next
      case (StatusFailed lastM batch' e')
      with Locked q assms(3) show ?thesis
        by (auto simp: trace_simps failed_call_not_ran split: if_splits)
    next
      case (AfterFailed lastM batch' e')
      with Locked q assms(3) show ?thesis
        by (auto simp: trace_simps failed_call_not_ran)
    qed (use Locked q assms(3) in \<open>simp_all add: trace_simps\<close>)
  qed (use q assms(3) in \<open>simp_all add: trace_simps\<close>)
  then show ?thesis by (simp add: shadow_def)
qed

theorem C3_migration_failure_witness:
  "GetMigrationsAfter None (Inr [1, 0, 3]) \<in> set (events_of
      (u_migrate (demo_env [1, 0, 3]) (demo_settings [''before.sql'']) None None [])) \<and>
   migration_calls (events_of
      (u_migrate (demo_env [1, 0, 3]) (demo_settings [''before.sql'']) None None [])) =
     [RunCommittedMigration 1 '''' (Inr ()), RunCommittedMigration 0 '''' (Inl (Thrown 0))] \<and>
   hook_calls (events_of
      (u_migrate (demo_env [1, 0, 3]) (demo_settings [''before.sql'']) None None [])) =
     [ExecuteActions False [''before.sql''] (Inr ())] \<and>
   status_lines (events_of
      (u_migrate (demo_env [1, 0, 3]) (demo_settings [''before.sql'']) None None [])) = [] \<and>
   result_of (u_migrate (demo_env [1, 0, 3]) (demo_settings [''before.sql'']) None None []) =
     Inl (Thrown 0) \<and>
   runner_identifies (demo_env [1, 0, 3]) carried_migration \<and>
   carried_migration (Thrown 0) = Some ([1, 0, 3] ! (2 - 1))"
proof -
  note run = demo_run_failing
  define t :: "(nat, string, nat) event list" where
    "t = [Connect ''postgres://db'' (Inr ()), Lock (Inr ()),
       GetLastMigration (Inr None), GetMigrationsAfter None (Inr [1, 0, 3]),
       ExecuteActions False [''before.sql''] (Inr ()),
       RunCommittedMigration 1 '''' (Inr ()), RunCommittedMigration 0 '''' (Inl (Thrown 0)),
       Unlock, Release]"
  have batch: "GetMigrationsAfter None (Inr [1, 0, 3]) \<in> set t"
    by (simp add: t_def)
  have failed: "RunCommittedMigration 0 '''' (Inl (Thrown 0)) \<in> set t"
    by (simp add: t_def)
  have calls: "migration_calls t =
      [RunCommittedMigration 1 '''' (Inr ()), RunCommittedMigration 0 '''' (Inl (Thrown 0))]"
    by (simp add: t_def migration_calls_def)
  note contract = demo_runner_identifies [of "[1, 0, 3]"]
  from C3_migration_failure [OF run [folded t_def] batch failed contract]
  obtain k where k: "called_migrations t = take k [1, 0, 3]"
    "hook_calls t = [ExecuteActions (default_arg False None)
        (beforeAllMigrations (demo_settings [''before.sql''])) (Inr ())]"
    "status_lines t = []"
    "carried_migration (Thrown 0) = Some ([1, 0, 3] ! (k - 1))"
    by blast
  have "called_migrations t = [1, 0]"
    by (simp add: t_def)
  with k(1) have "take k [1, 0, 3 :: nat] = [1, 0]"
    by simp
  then have "length (take k [1, 0, 3 :: nat]) = 2"
    by simp
  then have "k = 2"
    by (simp add: min_def split: if_splits)
  with k have "hook_calls t = [ExecuteActions False [''before.sql''] (Inr ())] \<and>
      status_lines t = [] \<and>
      carried_migration (Thrown 0) = Some ([1, 0, 3] ! (2 - 1))"
    by (simp add: default_arg_def demo_settings_def)
  with batch calls contract show ?thesis
    unfolding run result_of_def events_of_def t_def [symmetric] by simp
qed

text \<open>
  C4. In every run the migrations handed to \<open>runCommittedMigration\<close> are an initial
  segment of the batch that \<open>getMigrationsAfter\<close> returned, in the order of the batch,
  and the whole batch when the run completes; every call but the last one made has
  resolved when the next one is made (the loop awaits each call); the calls stand
  together in the run, with no other call between them; and a run in which
  \<open>getMigrationsAfter\<close> returned no batch applies no migration at all.
\<close>

theorem C4_batch_order:
  fixes t :: "('m, 'h, 'e) event list"
  assumes "u_migrate env p shadowArg forceActionsArg w = (r, w', t)"
    and "sfx = (if default_arg False shadowArg then ''[shadow]'' else '''')"
  shows "(migration_calls t = [] \<or>
            (\<exists>lastMigration batch. GetMigrationsAfter lastMigration (Inr batch) \<in> set t)) \<and>
         (\<forall>lastMigration batch. GetMigrationsAfter lastMigration (Inr batch) \<in> set t \<longrightarrow>
            (\<exists>k \<le> length batch.
               called_migrations t = take k batch \<and>
               butlast (migration_calls t) = map (ran sfx) (butlast (take k batch)) \<and>
               (r = Inr () \<longrightarrow> migration_calls t = map (ran sfx) batch) \<and>
               (\<exists>pre post. t = pre @ migration_calls t @ post)))"
proof -
  define shadow where "shadow = default_arg False shadowArg"
  define force where "force = default_arg False forceActionsArg"
  from assms(2) have sfx: "sfx = (if shadow then ''[shadow]'' else '''')"
    by (simp add: shadow_def)
  from assms(1) shadow_def force_def sfx
  obtain q connStr where q: "run_path_ok force q" "r = run_result q"
    "t = run_trace p shadow force connStr sfx q"
    by (rule run_path_of)
  show ?thesis
  proof (cases q)
    case (Locked b)
    show ?thesis
    proof (cases b)
      case (LastMigrationFailed e)
      with Locked q show ?thesis by (simp add: trace_simps)
    next
      case (MigrationsAfterFailed lastM e)
      with Locked q show ?thesis by (simp add: trace_simps)
    next
      case (BeforeFailed lastM batch e)
      with Locked q have t: "t = [Connect connStr (Inr ()), Lock (Inr ()),
        GetLastMigration (Inr lastM), GetMigrationsAfter lastM (Inr batch),
        ExecuteActions shadow (beforeAllMigrations p) (Inl e), Unlock, Release]"
        by simp
      have calls: "migration_calls t = []" by (simp add: t trace_simps)
      then have "t = t @ migration_calls t @ []" by simp
      then have split: "\<exists>pre post. t = pre @ migration_calls t @ post" by blast
      have called: "called_migrations t = take 0 batch" by (simp add: t)
      have batches: "GetMigrationsAfter lastMigration (Inr batch') \<in> set t \<Longrightarrow> batch' = batch"
        for lastMigration batch'
        by (simp add: t)
      have failed: "r \<noteq> Inr ()"
        using BeforeFailed Locked q by simp
      have "\<exists>k \<le> length batch.
               called_migrations t = take k batch \<and>
               butlast (migration_calls t) = map (ran sfx) (butlast (take k batch)) \<and>
               (r = Inr () \<longrightarrow> migration_calls t = map (ran sfx) batch) \<and>
               (\<exists>pre post. t = pre @ migration_calls t @ post)"
        using called calls failed split by (intro exI [of _ 0]) simp
      then show ?thesis using batches calls by blast
    next
      case (MigrationFailed lastM batch k e)
      with Locked q have k: "k < length batch" by simp
      define pre :: "('m, 'h, 'e) event list" where "pre = [Connect connStr (Inr ()), Lock (Inr ()),
        GetLastMigration (Inr lastM), GetMigrationsAfter lastM (Inr batch),
        ExecuteActions shadow (beforeAllMigrations p) (Inr ())]"
      define calls :: "('m, 'h, 'e) event list" where
        "calls = map (ran sfx) (take k batch) @ [RunCommittedMigration (batch ! k) sfx (Inl e)]"
      from MigrationFailed Locked q have t: "t = pre @ calls @ [Unlock, Release]"
        by (simp add: pre_def calls_def)
      have calls: "migration_calls t = calls"
        by (simp add: t pre_def calls_def trace_simps)
      have "t = pre @ migration_calls t @ [Unlock, Release]"
        unfolding calls by (rule t)
      then have split: "\<exists>pre post. t = pre @ migration_calls t @ post"
        by blast
      have taken: "take (Suc k) batch = take k batch @ [batch ! k]"
        using k by (simp add: take_Suc_conv_app_nth)
      have called: "called_migrations t = take (Suc k) batch"
        by (simp add: t pre_def calls_def taken)
      have resolved: "butlast (migration_calls t) = map (ran sfx) (butlast (take (Suc k) batch))"
        by (simp add: calls calls_def taken butlast_append)
      have batches: "GetMigrationsAfter lastMigration (Inr batch') \<in> set t \<Longrightarrow> batch' = batch"
        for lastMigration batch'
        by (auto simp: t pre_def calls_def)
      have failed: "r \<noteq> Inr ()"
        using MigrationFailed Locked q by simp
      have "\<exists>k \<le> length batch.
               called_migrations t = take k batch \<and>
               butlast (migration_calls t) = map (ran sfx) (butlast (take k batch)) \<and>
               (r = Inr () \<longrightarrow> migration_calls t = map (ran sfx) batch) \<and>
               (\<exists>pre post. t = pre @ migration_calls t @ post)"
        using k called resolved failed split by (intro exI [of _ "Suc k"]) simp
      moreover have "\<exists>lastMigration batch. GetMigrationsAfter lastMigration (Inr batch) \<in> set t"
        by (auto simp: t pre_def)
      ultimately show ?thesis using batches by blast
    next
      case (AfterFailed lastM batch e)
      define pre :: "('m, 'h, 'e) event list" where "pre = [Connect connStr (Inr ()), Lock (Inr ()),
        GetLastMigration (Inr lastM), GetMigrationsAfter lastM (Inr batch),
        ExecuteActions shadow (beforeAllMigrations p) (Inr ())]"
      from AfterFailed Locked q have t: "t = pre @ map (ran sfx) batch @
        [ExecuteActions shadow (afterAllMigrations p) (Inl e), Unlock, Release]"
        by (simp add: pre_def)
      have calls: "migration_calls t = map (ran sfx) batch"
        by (simp add: t pre_def trace_simps)
      have "t = pre @ migration_calls t @
          [ExecuteActions shadow (afterAllMigrations p) (Inl e), Unlock, Release]"
        unfolding calls by (rule t)
      then have split: "\<exists>pre post. t = pre @ migration_calls t @ post"
        by blast
      have called: "called_migrations t = take (length batch) batch"
        by (simp add: t pre_def)
      have resolved: "butlast (migration_calls t) =
          map (ran sfx) (butlast (take (length batch) batch))"
        by (simp add: calls map_butlast)
      have batches: "GetMigrationsAfter lastMigration (Inr batch') \<in> set t \<Longrightarrow> batch' = batch"
        for lastMigration batch'
        by (auto simp: t pre_def)
      have "\<exists>k \<le> length batch.
               called_migrations t = take k batch \<and>
               butlast (migration_calls t) = map (ran sfx) (butlast (take k batch)) \<and>
               (r = Inr () \<longrightarrow> migration_calls t = map (ran sfx) batch) \<and>
               (\<exists>pre post. t = pre @ migration_calls t @ post)"
        using called resolved calls split by (intro exI [of _ "length batch"]) simp
      moreover have "\<exists>lastMigration batch. GetMigrationsAfter lastMigration (Inr batch) \<in> set t"
        by (auto simp: t pre_def)
      ultimately show ?thesis using batches by blast
    next
      case (Completed lastM batch)
      define pre :: "('m, 'h, 'e) event list" where "pre = [Connect connStr (Inr ()), Lock (Inr ()),
        GetLastMigration (Inr lastM), GetMigrationsAfter lastM (Inr batch)] @
        hook_ok (batch \<noteq> [] \<or> force) shadow (beforeAllMigrations p)"
      define post :: "('m, 'h, 'e) event list" where "post = hook_ok (batch \<noteq> [] \<or> force) shadow (afterAllMigrations p) @
        [LoggerInfo (status_line sfx batch lastM) (Inr ()), Unlock, Release]"
      from Completed Locked q have t: "t = pre @ map (ran sfx) batch @ post"
        by (simp add: pre_def post_def)
      have calls: "migration_calls t = map (ran sfx) batch"
        by (simp add: t pre_def post_def trace_simps)
      have "t = pre @ migration_calls t @ post"
        unfolding calls by (rule t)
      then have split: "\<exists>pre post. t = pre @ migration_calls t @ post"
        by blast
      have called: "called_migrations t = take (length batch) batch"
        by (simp add: t pre_def post_def hook_ok_def)
      have resolved: "butlast (migration_calls t) =
          map (ran sfx) (butlast (take (length batch) batch))"
        by (simp add: calls map_butlast)
      have batches: "GetMigrationsAfter lastMigration (Inr batch') \<in> set t \<Longrightarrow> batch' = batch"
        for lastMigration batch'
        by (auto simp: t pre_def post_def hook_ok_def split: if_splits)
      have "\<exists>k \<le> length batch.
               called_migrations t = take k batch \<and>
               butlast (migration_calls t) = map (ran sfx) (butlast (take k batch)) \<and>
               (r = Inr () \<longrightarrow> migration_calls t = map (ran sfx) batch) \<and>
               (\<exists>pre post. t = pre @ migration_calls t @ post)"
        using called resolved calls split by (intro exI [of _ "length batch"]) simp
      moreover have "\<exists>lastMigration batch. GetMigrationsAfter lastMigration (Inr batch) \<in> set t"
        by (auto simp: t pre_def)
      ultimately show ?thesis using batches by blast
    next
      case (StatusFailed lastM batch e)
      define pre :: "('m, 'h, 'e) event list" where "pre = [Connect connStr (Inr ()), Lock (Inr ()),
        GetLastMigration (Inr lastM), GetMigrationsAfter lastM (Inr batch)] @
        hook_ok (batch \<noteq> [] \<or> force) shadow (beforeAllMigrations p)"
      define post :: "('m, 'h, 'e) event list" where "post = hook_ok (batch \<noteq> [] \<or> force) shadow (afterAllMigrations p) @
        [LoggerInfo (status_line sfx batch lastM) (Inl e), Unlock, Release]"
      from StatusFailed Locked q have t: "t = pre @ map (ran sfx) batch @ post"
        by (simp add: pre_def post_def)
      have calls: "migration_calls t = map (ran sfx) batch"
        by (simp add: t pre_def post_def trace_simps)
      have "t = pre @ migration_calls t @ post"
        unfolding calls by (rule t)
      then have split: "\<exists>pre post. t = pre @ migration_calls t @ post"
        by blast
      have called: "called_migrations t = take (length batch) batch"
        by (simp add: t pre_def post_def hook_ok_def)
      have resolved: "butlast (migration_calls t) =
          map (ran sfx) (butlast (take (length batch) batch))"
        by (simp add: calls map_butlast)
      have batches: "GetMigrationsAfter lastMigration (Inr batch') \<in> set t \<Longrightarrow> batch' = batch"
        for lastMigration batch'
        by (auto simp: t pre_def post_def hook_ok_def split: if_splits)
      have "\<exists>k \<le> length batch.
               called_migrations t = take k batch \<and>
               butlast (migration_calls t) = map (ran sfx) (butlast (take k batch)) \<and>
               (r = Inr () \<longrightarrow> migration_calls t = map (ran sfx) batch) \<and>
               (\<exists>pre post. t = pre @ migration_calls t @ post)"
        using called resolved calls split by (intro exI [of _ "length batch"]) simp
      moreover have "\<exists>lastMigration batch. GetMigrationsAfter lastMigration (Inr batch) \<in> set t"
        by (auto simp: t pre_def)
      ultimately show ?thesis using batches by blast
    qed
  qed (use q in \<open>simp_all add: trace_simps\<close>)
qed

theorem C4_batch_order_witness:
  "GetMigrationsAfter None (Inr [1, 2, 3]) \<in> set (events_of
      (u_migrate (demo_env [1, 2, 3]) (demo_settings [''before.sql'']) None None [])) \<and>
   migration_calls (events_of
      (u_migrate (demo_env [1, 2, 3]) (demo_settings [''before.sql'']) None None [])) =
     [RunCommittedMigration 1 '''' (Inr ()), RunCommittedMigration 2 '''' (Inr ()),
      RunCommittedMigration 3 '''' (Inr ())]"
proof -
  note run = demo_run_ok
  define t :: "(nat, string, nat) event list" where
    "t = [Connect ''postgres://db'' (Inr ()), Lock (Inr ()),
       GetLastMigration (Inr None), GetMigrationsAfter None (Inr [1, 2, 3]),
       ExecuteActions False [''before.sql''] (Inr ()),
       RunCommittedMigration 1 '''' (Inr ()), RunCommittedMigration 2 '''' (Inr ()),
       RunCommittedMigration 3 '''' (Inr ()),
       ExecuteActions False [''after.sql''] (Inr ()),
       LoggerInfo ''graphile-migrate: 3 committed migrations executed'' (Inr ()),
       Unlock, Release]"
  have batch: "GetMigrationsAfter None (Inr [1, 2, 3]) \<in> set t"
    by (simp add: t_def)
  from C4_batch_order [OF run [folded t_def] refl] batch
  have "migration_calls t = map (ran (if default_arg False None then ''[shadow]'' else ''''))
      [1, 2, 3]"
    by blast
  then have "migration_calls t =
     [RunCommittedMigration 1 '''' (Inr ()), RunCommittedMigration 2 '''' (Inr ()),
      RunCommittedMigration 3 '''' (Inr ())]"
    by (simp add: default_arg_def)
  with batch show ?thesis
    unfolding run events_of_def t_def [symmetric] by simp
qed

text \<open>
  C5. The connection string of a run is \<open>parsedSettings.shadowConnectionString\<close> when
  \<open>shadow\<close> is true and \<open>parsedSettings.connectionString\<close> otherwise. When the selected
  value is falsy, \<open>_migrate\<close> throws the error "Could not determine connection string"
  having made no call at all and left the world as it was; otherwise the first call of
  the run is the connection to that string, and no other string is ever connected to.
\<close>

theorem C5_connection_string:
  assumes "sel = (if default_arg False shadowArg then shadowConnectionString p
                  else connectionString p)"
  shows "(falsy sel \<longrightarrow>
            u_migrate env p shadowArg forceActionsArg w =
              (Inl (Error ''Could not determine connection string''), w, [])) \<and>
         (\<not> falsy sel \<longrightarrow>
            (\<exists>r. take 1 (events_of (u_migrate env p shadowArg forceActionsArg w)) =
                    [Connect (the sel) r]) \<and>
            (\<forall>connStr r.
                Connect connStr r \<in> set (events_of (u_migrate env p shadowArg forceActionsArg w))
                 \<longrightarrow> connStr = the sel))"
proof (intro conjI impI)
  assume "falsy sel"
  with assms show "u_migrate env p shadowArg forceActionsArg w =
      (Inl (Error ''Could not determine connection string''), w, [])"
    by (simp add: u_migrate_def throw_def)
next
  assume truthy: "\<not> falsy sel"
  define shadow where "shadow = default_arg False shadowArg"
  define force where "force = default_arg False forceActionsArg"
  define sfx where "sfx = (if shadow then ''[shadow]'' else '''')"
  from assms have sel: "sel = (if shadow then shadowConnectionString p else connectionString p)"
    by (simp add: shadow_def)
  from u_migrate_path [where env = env and w = w and forceActionsArg = forceActionsArg,
      OF shadow_def force_def sel sfx_def] truthy
  obtain q where q: "q \<noteq> NoConnectionString"
    "events_of (u_migrate env p shadowArg forceActionsArg w) =
       run_trace p shadow force (the sel) sfx q"
    by auto
  show "\<exists>r. take 1 (events_of (u_migrate env p shadowArg forceActionsArg w)) =
                    [Connect (the sel) r]"
    using q by (cases q) simp_all
  show "\<forall>connStr r.
          Connect connStr r \<in> set (events_of (u_migrate env p shadowArg forceActionsArg w))
            \<longrightarrow> connStr = the sel"
  proof (cases q)
    case (Locked b)
    with q show ?thesis by (cases b) (auto simp: hook_ok_def)
  qed (use q in simp_all)
qed

theorem C5_connection_string_witness:
  "u_migrate (demo_env [1, 2, 3]) (demo_settings [''before.sql'']) (Some True) (Some True) [] =
     (Inl (Error ''Could not determine connection string''), [], []) \<and>
   take 1 (events_of
     (u_migrate (demo_env [1, 2, 3]) (demo_settings [''before.sql'']) None None [])) =
     [Connect ''postgres://db'' (Inr ())] \<and>
   take 1 (events_of
     (u_migrate (demo_env [1, 2, 3]) demo_shadow_settings (Some True) None [1, 2])) =
     [Connect ''postgres://shadow'' (Inr ())]"
proof -
  have absent: "falsy (if default_arg False (Some True)
      then shadowConnectionString (demo_settings [''before.sql''])
      else connectionString (demo_settings [''before.sql'']))"
    by (simp add: default_arg_def demo_settings_def falsy_def)
  have present: "\<not> falsy (if default_arg False None
      then shadowConnectionString (demo_settings [''before.sql''])
      else connectionString (demo_settings [''before.sql'']))"
    by (simp add: default_arg_def demo_settings_def falsy_def)
  from C5_connection_string [OF refl, of "Some True" "demo_settings [''before.sql'']"
      "demo_env [1, 2, 3]" "Some True" "[]"] absent
  have first: "u_migrate (demo_env [1, 2, 3]) (demo_settings [''before.sql''])
      (Some True) (Some True) [] =
     (Inl (Error ''Could not determine connection string''), [], [])"
    by blast
  from C5_connection_string [OF refl, of None "demo_settings [''before.sql'']"
      "demo_env [1, 2, 3]" None "[]"] present
  have "\<exists>r. take 1 (events_of
     (u_migrate (demo_env [1, 2, 3]) (demo_settings [''before.sql'']) None None [])) =
     [Connect (the (if default_arg False None
      then shadowConnectionString (demo_settings [''before.sql''])
      else connectionString (demo_settings [''before.sql'']))) r]"
    by blast
  then have second: "take 1 (events_of
     (u_migrate (demo_env [1, 2, 3]) (demo_settings [''before.sql'']) None None [])) =
     [Connect ''postgres://db'' (Inr ())]"
    unfolding demo_run_ok events_of_def by simp
  have third: "take 1 (events_of
     (u_migrate (demo_env [1, 2, 3]) demo_shadow_settings (Some True) None [1, 2])) =
     [Connect ''postgres://shadow'' (Inr ())]"
    unfolding demo_run_shadow events_of_def by simp
  from first second third show ?thesis by blast
qed

text \<open>
  C6, as the code has it. No run calls \<open>logger.info\<close> more than once, and every run that
  completes without error calls it exactly once, with "graphile-migrate", the target tag
  ("[shadow]" against the shadow target, nothing otherwise), ": " and one of three
  texts: "N committed migrations executed" when the batch is non-empty (N its length, in
  decimal), "Already up to date" when the batch is empty and a last migration exists,
  "Up to date (dash) no committed migrations to run" when the batch is empty and there
  is none.
\<close>

theorem C6_status_line:
  fixes t :: "('m, 'h, 'e) event list"
  assumes "u_migrate env p shadowArg forceActionsArg w = (r, w', t)"
    and "tag = (if default_arg False shadowArg then ''[shadow]'' else '''')"
  shows "(r = Inr () \<longrightarrow>
           (\<exists>lastMigration batch.
              GetLastMigration (Inr lastMigration) \<in> set t \<and>
              GetMigrationsAfter lastMigration (Inr batch) \<in> set t \<and>
              status_lines t =
                [LoggerInfo (''graphile-migrate'' @ tag @ '': '' @
                   (if batch \<noteq> []
                    then decimal (length batch) @ '' committed migrations executed''
                    else if lastMigration \<noteq> None
                    then ''Already up to date''
                    else ''Up to date '' @ em_dash @ '' no committed migrations to run''))
                   (Inr ())])) \<and>
         length (status_lines t) \<le> 1"
proof -
  define shadow where "shadow = default_arg False shadowArg"
  define force where "force = default_arg False forceActionsArg"
  from assms(2) have tag: "tag = (if shadow then ''[shadow]'' else '''')"
    by (simp add: shadow_def)
  from assms(1) shadow_def force_def tag
  obtain q connStr where q: "run_path_ok force q" "r = run_result q"
    "t = run_trace p shadow force connStr tag q"
    by (rule run_path_of)
  show ?thesis
  proof (cases q)
    case (Locked b)
    show ?thesis
    proof (cases b)
      case (Completed lastM batch)
      with Locked q have line:
        "status_lines t = [LoggerInfo (status_line tag batch lastM) (Inr ())]"
        by (simp add: trace_simps)
      from Completed Locked q have reads: "GetLastMigration (Inr lastM) \<in> set t"
        "GetMigrationsAfter lastM (Inr batch) \<in> set t"
        by simp_all
      have "status_line tag batch lastM = ''graphile-migrate'' @ tag @ '': '' @
                   (if batch \<noteq> []
                    then decimal (length batch) @ '' committed migrations executed''
                    else if lastM \<noteq> None
                    then ''Already up to date''
                    else ''Up to date '' @ em_dash @ '' no committed migrations to run'')"
        by (simp add: status_line_def)
      with line reads Completed Locked q show ?thesis
        by (intro conjI impI exI [of _ lastM] exI [of _ batch]) simp_all
    qed (use Locked q in \<open>simp_all add: trace_simps\<close>)
  qed (use q in \<open>simp_all add: trace_simps\<close>)
qed

theorem C6_status_line_witness:
  "result_of (u_migrate (demo_env [1, 2, 3]) (demo_settings [''before.sql'']) None None []) =
     Inr () \<and>
   status_lines (events_of
     (u_migrate (demo_env [1, 2, 3]) (demo_settings [''before.sql'']) None None [])) =
     [LoggerInfo ''graphile-migrate: 3 committed migrations executed'' (Inr ())] \<and>
   status_lines (events_of
     (u_migrate (demo_env [1, 2, 3]) (demo_settings [''before.sql'']) None None [1, 2, 3])) =
     [LoggerInfo ''graphile-migrate: Already up to date'' (Inr ())] \<and>
   status_lines (events_of
     (u_migrate (demo_env []) (demo_settings [''before.sql'']) None None [])) =
     [LoggerInfo
        (''graphile-migrate: Up to date '' @ em_dash @ '' no committed migrations to run'')
        (Inr ())] \<and>
   status_lines (events_of
     (u_migrate (demo_env [1, 2, 3]) demo_shadow_settings (Some True) None [1, 2])) =
     [LoggerInfo ''graphile-migrate[shadow]: 1 committed migrations executed'' (Inr ())] \<and>
   result_of (u_migrate (demo_env [1, 0, 3]) (demo_settings [''before.sql'']) None None []) =
     Inl (Thrown 0) \<and>
   status_lines (events_of
     (u_migrate (demo_env [1, 0, 3]) (demo_settings [''before.sql'']) None None [])) = [] \<and>
   status_lines (events_of
     (u_migrate ((demo_env [1, 2, 3])
          \<lparr>logger_info_impl := (\<lambda>message w. (Inl (Error ''log failed''), w))\<rparr>)
        (demo_settings [''before.sql'']) None None [1, 2, 3])) =
     [LoggerInfo ''graphile-migrate: Already up to date'' (Inl (Error ''log failed''))]"
proof -
  define t :: "(nat, string, nat) event list" where
    "t = [Connect ''postgres://db'' (Inr ()), Lock (Inr ()),
       GetLastMigration (Inr None), GetMigrationsAfter None (Inr [1, 2, 3]),
       ExecuteActions False [''before.sql''] (Inr ()),
       RunCommittedMigration 1 '''' (Inr ()), RunCommittedMigration 2 '''' (Inr ()),
       RunCommittedMigration 3 '''' (Inr ()),
       ExecuteActions False [''after.sql''] (Inr ()),
       LoggerInfo ''graphile-migrate: 3 committed migrations executed'' (Inr ()),
       Unlock, Release]"
  define t' :: "(nat, string, nat) event list" where
    "t' = [Connect ''postgres://db'' (Inr ()), Lock (Inr ()),
       GetLastMigration (Inr None), GetMigrationsAfter None (Inr [1, 0, 3]),
       ExecuteActions False [''before.sql''] (Inr ()),
       RunCommittedMigration 1 '''' (Inr ()), RunCommittedMigration 0 '''' (Inl (Thrown 0)),
       Unlock, Release]"
  from C6_status_line [OF demo_run_ok [folded t_def] refl]
  obtain lastMigration batch where reads: "GetLastMigration (Inr lastMigration) \<in> set t"
    "GetMigrationsAfter lastMigration (Inr batch) \<in> set t"
    and line: "status_lines t =
      [LoggerInfo (''graphile-migrate'' @
         (if default_arg False None then ''[shadow]'' else '''') @ '': '' @
         (if batch \<noteq> []
          then decimal (length batch) @ '' committed migrations executed''
          else if lastMigration \<noteq> None
          then ''Already up to date''
          else ''Up to date '' @ em_dash @ '' no committed migrations to run''))
         (Inr ())]"
    by blast
  from reads have "batch = [1, 2, 3]"
    by (simp add: t_def)
  with line have ok: "status_lines t =
      [LoggerInfo ''graphile-migrate: 3 committed migrations executed'' (Inr ())]"
    by (simp add: default_arg_def decimal.simps digit_def)
  have failed: "status_lines t' = []"
    by (simp add: t'_def status_lines_def)
  have again: "status_lines (events_of
     (u_migrate (demo_env [1, 2, 3]) (demo_settings [''before.sql'']) None None [1, 2, 3])) =
     [LoggerInfo ''graphile-migrate: Already up to date'' (Inr ())]"
    unfolding demo_run_again events_of_def by (simp add: status_lines_def)
  have fresh: "status_lines (events_of
     (u_migrate (demo_env []) (demo_settings [''before.sql'']) None None [])) =
     [LoggerInfo
        (''graphile-migrate: Up to date '' @ em_dash @ '' no committed migrations to run'')
        (Inr ())]"
    unfolding demo_run_fresh events_of_def by (simp add: status_lines_def)
  have shadow: "status_lines (events_of
     (u_migrate (demo_env [1, 2, 3]) demo_shadow_settings (Some True) None [1, 2])) =
     [LoggerInfo ''graphile-migrate[shadow]: 1 committed migrations executed'' (Inr ())]"
    unfolding demo_run_shadow events_of_def by (simp add: status_lines_def)
  from ok failed have "result_of (u_migrate (demo_env [1, 2, 3])
        (demo_settings [''before.sql'']) None None []) = Inr () \<and>
   status_lines (events_of
     (u_migrate (demo_env [1, 2, 3]) (demo_settings [''before.sql'']) None None [])) =
     [LoggerInfo ''graphile-migrate: 3 committed migrations executed'' (Inr ())] \<and>
   result_of (u_migrate (demo_env [1, 0, 3]) (demo_settings [''before.sql'']) None None []) =
     Inl (Thrown 0) \<and>
   status_lines (events_of
     (u_migrate (demo_env [1, 0, 3]) (demo_settings [''before.sql'']) None None [])) = []"
    unfolding demo_run_ok demo_run_failing result_of_def events_of_def
      t_def [symmetric] t'_def [symmetric]
    by simp
  moreover have "status_lines (events_of
     (u_migrate ((demo_env [1, 2, 3])
          \<lparr>logger_info_impl := (\<lambda>message w. (Inl (Error ''log failed''), w))\<rparr>)
        (demo_settings [''before.sql'']) None None [1, 2, 3])) =
     [LoggerInfo ''graphile-migrate: Already up to date'' (Inl (Error ''log failed''))]"
    unfolding demo_run_logger_throws events_of_def by (simp add: status_lines_def)
  ultimately show ?thesis using again fresh shadow by blast
qed

text \<open>
  C6 as stated fails: this run, whose second migration is rejected, logs no status line
  at all.
\<close>

theorem C6_status_line_counterexample:
  "length (status_lines (events_of
     (u_migrate (demo_env [1, 0, 3]) (demo_settings [''before.sql'']) None None []))) \<noteq> 1"
  unfolding demo_run_failing events_of_def
  by (simp add: status_lines_def)

text \<open>
  C7. When \<open>_migrate\<close> runs a second time, with \<open>forceActions\<close> false, in the world the
  first run left, and \<open>getMigrationsAfter\<close> returns an empty batch there, the second run
  makes no \<open>runCommittedMigration\<close> call and no \<open>executeActions\<close> call. Its calls are
  exactly: the connection, the lock, the two ledger reads, one status line ("Already up
  to date" when a last migration exists, "Up to date (dash) no committed migrations to
  run" otherwise), the unlock and the release; and its outcome is the outcome of the
  logger call.
\<close>

theorem C7_second_run_idle:
  fixes t2 :: "('m, 'h, 'e) event list"
  assumes "u_migrate env p shadowArg forceActionsArg1 w0 = (r1, w1, t1)"
    and "u_migrate env p shadowArg forceActionsArg2 w1 = (r2, w2, t2)"
    and "default_arg False forceActionsArg2 = False"
    and "GetMigrationsAfter lastMigration (Inr []) \<in> set t2"
    and "tag = (if default_arg False shadowArg then ''[shadow]'' else '''')"
  shows "migration_calls t2 = [] \<and> hook_calls t2 = [] \<and>
         (\<exists>connStr. t2 =
            [Connect connStr (Inr ()), Lock (Inr ()),
             GetLastMigration (Inr lastMigration), GetMigrationsAfter lastMigration (Inr []),
             LoggerInfo (''graphile-migrate'' @ tag @ '': '' @
               (if lastMigration \<noteq> None then ''Already up to date''
                else ''Up to date '' @ em_dash @ '' no committed migrations to run'')) r2,
             Unlock, Release])"
proof -
  define shadow where "shadow = default_arg False shadowArg"
  from assms(5) have tag: "tag = (if shadow then ''[shadow]'' else '''')"
    by (simp add: shadow_def)
  from assms(2) shadow_def assms(3) [symmetric] tag
  obtain q connStr where q: "run_path_ok False q" "r2 = run_result q"
    "t2 = run_trace p shadow False connStr tag q"
    by (rule run_path_of)
  show ?thesis
  proof (cases q)
    case (Locked b)
    show ?thesis
    proof (cases b)
      case (Completed lastM batch)
      with Locked q assms(4) have same: "batch = []" "lastM = lastMigration"
        by (auto simp: hook_ok_def split: if_splits)
      with Completed Locked q show ?thesis
        by (simp add: trace_simps status_line_def)
    next
      case (StatusFailed lastM batch e)
      with Locked q assms(4) have same: "batch = []" "lastM = lastMigration"
        by (auto simp: hook_ok_def split: if_splits)
      with StatusFailed Locked q show ?thesis
        by (simp add: trace_simps status_line_def)
    next
      case (MigrationFailed lastM batch k e)
      with Locked q assms(4) show ?thesis
        by (auto simp: failed_call_not_ran)
    next
      case (AfterFailed lastM batch e)
      with Locked q assms(4) show ?thesis by auto
    qed (use Locked q assms(4) in \<open>simp_all add: trace_simps\<close>)
  qed (use q assms(4) in \<open>simp_all add: trace_simps\<close>)
qed

theorem C7_second_run_idle_witness:
  "world_of (u_migrate (demo_env [1, 2, 3]) (demo_settings [''before.sql'']) None None []) =
     [1, 2, 3] \<and>
   u_migrate (demo_env [1, 2, 3]) (demo_settings [''before.sql'']) None None
     (world_of
        (u_migrate (demo_env [1, 2, 3]) (demo_settings [''before.sql'']) None None [])) =
     (Inr (), [1, 2, 3],
      [Connect ''postgres://db'' (Inr ()), Lock (Inr ()),
       GetLastMigration (Inr (Some 3)), GetMigrationsAfter (Some 3) (Inr []),
       LoggerInfo ''graphile-migrate: Already up to date'' (Inr ()),
       Unlock, Release]) \<and>
   migration_calls (events_of
     (u_migrate (demo_env [1, 2, 3]) (demo_settings [''before.sql'']) None None
       (world_of
          (u_migrate (demo_env [1, 2, 3]) (demo_settings [''before.sql'']) None None [])))) =
     [] \<and>
   hook_calls (events_of
     (u_migrate (demo_env [1, 2, 3]) (demo_settings [''before.sql'']) None None
       (world_of
          (u_migrate (demo_env [1, 2, 3]) (demo_settings [''before.sql'']) None None [])))) =
     []"
proof -
  define t :: "(nat, string, nat) event list" where
    "t = [Connect ''postgres://db'' (Inr ()), Lock (Inr ()),
      GetLastMigration (Inr (Some 3)), GetMigrationsAfter (Some 3) (Inr []),
      LoggerInfo ''graphile-migrate: Already up to date'' (Inr ()),
      Unlock, Release]"
  have idle: "default_arg False (None :: bool option) = False"
    by (simp add: default_arg_def)
  have batch: "GetMigrationsAfter (Some 3) (Inr []) \<in> set t"
    by (simp add: t_def)
  from C7_second_run_idle [OF demo_run_ok demo_run_again [folded t_def] idle batch refl]
  have "migration_calls t = [] \<and> hook_calls t = []"
    by blast
  then show ?thesis
    unfolding demo_run_ok world_of_def fst_conv snd_conv demo_run_again events_of_def
      t_def [symmetric]
    by simp
qed

text \<open>
  C8. In every run, either no ledger read, hook call, migration call or status line
  happens at all, or the calls of the run are: the connection of \<open>withClient\<close>, the lock
  of \<open>withAdvisoryLock\<close> (both successful), then calls that are all ledger reads, hook
  calls, migration calls and the status line, then the unlock and the release. So every
  such call comes after the lock is acquired and before it is released, and the lock is
  taken and given back inside the connection's scope. (\<open>withClient\<close> and
  \<open>withAdvisoryLock\<close> acquire, run their body and release as the specification says.)
\<close>

theorem C8_work_under_lock:
  fixes t :: "('m, 'h, 'e) event list"
  assumes "u_migrate env p shadowArg forceActionsArg w = (r, w', t)"
  shows "(\<forall>ev \<in> set t. \<not> is_work ev) \<or>
         (\<exists>connStr work.
            t = Connect connStr (Inr ()) # Lock (Inr ()) # work @ [Unlock, Release] \<and>
            (\<forall>ev \<in> set work. is_work ev))"
proof -
  define shadow where "shadow = default_arg False shadowArg"
  define force where "force = default_arg False forceActionsArg"
  define sfx where "sfx = (if shadow then ''[shadow]'' else '''')"
  from assms(1) shadow_def force_def sfx_def
  obtain q connStr where q: "run_path_ok force q" "r = run_result q"
    "t = run_trace p shadow force connStr sfx q"
    by (rule run_path_of)
  show ?thesis
  proof (cases q)
    case (Locked b)
    with q have "t = Connect connStr (Inr ()) # Lock (Inr ()) #
        body_trace p shadow force sfx b @ [Unlock, Release]"
      by simp
    moreover have "\<forall>ev \<in> set (body_trace p shadow force sfx b). is_work ev"
      by (simp add: body_trace_work)
    ultimately show ?thesis by blast
  qed (use q in \<open>simp_all add: is_work_def\<close>)
qed

theorem C8_work_under_lock_witness:
  "is_work (GetLastMigration (Inr None) :: (nat, string, nat) event) \<and>
   (\<exists>connStr work.
      events_of
        (u_migrate (demo_env [1, 2, 3]) (demo_settings [''before.sql'']) None None []) =
        Connect connStr (Inr ()) # Lock (Inr ()) # work @ [Unlock, Release] \<and>
      (\<forall>ev \<in> set work. is_work ev))"
proof -
  define t :: "(nat, string, nat) event list" where
    "t = [Connect ''postgres://db'' (Inr ()), Lock (Inr ()),
       GetLastMigration (Inr None), GetMigrationsAfter None (Inr [1, 2, 3]),
       ExecuteActions False [''before.sql''] (Inr ()),
       RunCommittedMigration 1 '''' (Inr ()), RunCommittedMigration 2 '''' (Inr ()),
       RunCommittedMigration 3 '''' (Inr ()),
       ExecuteActions False [''after.sql''] (Inr ()),
       LoggerInfo ''graphile-migrate: 3 committed migrations executed'' (Inr ()),
       Unlock, Release]"
  have work: "is_work (GetLastMigration (Inr None) :: (nat, string, nat) event)"
    by (simp add: is_work_def)
  have "GetLastMigration (Inr None) \<in> set t"
    by (simp add: t_def)
  with work have "\<not> (\<forall>ev \<in> set t. \<not> is_work ev)"
    by blast
  with C8_work_under_lock [OF demo_run_ok [folded t_def]]
  have "\<exists>connStr work.
      t = Connect connStr (Inr ()) # Lock (Inr ()) # work @ [Unlock, Release] \<and>
      (\<forall>ev \<in> set work. is_work ev)"
    by blast
  with work show ?thesis
    unfolding demo_run_ok events_of_def t_def [symmetric] by simp
qed

text \<open>
  C9. In every run in which \<open>getLastMigration\<close> or \<open>getMigrationsAfter\<close> rejects, no
  \<open>executeActions\<close> call and no \<open>runCommittedMigration\<close> call is made, and the run ends
  with that error.
\<close>

theorem C9_ledger_failure:
  assumes "u_migrate env p shadowArg forceActionsArg w = (r, w', t)"
    and "GetLastMigration (Inl e) \<in> set t \<or> GetMigrationsAfter lastMigration (Inl e) \<in> set t"
  shows "hook_calls t = [] \<and> migration_calls t = [] \<and> r = Inl e"
proof -
  define shadow where "shadow = default_arg False shadowArg"
  define force where "force = default_arg False forceActionsArg"
  define sfx where "sfx = (if shadow then ''[shadow]'' else '''')"
  from assms(1) shadow_def force_def sfx_def
  obtain q connStr where q: "run_path_ok force q" "r = run_result q"
    "t = run_trace p shadow force connStr sfx q"
    by (rule run_path_of)
  show ?thesis
  proof (cases q)
    case (Locked b)
    with q assms(2) show ?thesis
      by (cases b) (auto simp: trace_simps)
  qed (use q assms(2) in \<open>simp_all add: trace_simps\<close>)
qed

theorem C9_ledger_failure_witness:
  "GetMigrationsAfter (Some 7) (Inl (Error ''unknown migration'')) \<in> set (events_of
     (u_migrate (demo_env [1, 2, 3]) (demo_settings [''before.sql'']) None None [7])) \<and>
   hook_calls (events_of
     (u_migrate (demo_env [1, 2, 3]) (demo_settings [''before.sql'']) None None [7])) = [] \<and>
   migration_calls (events_of
     (u_migrate (demo_env [1, 2, 3]) (demo_settings [''before.sql'']) None None [7])) = [] \<and>
   result_of (u_migrate (demo_env [1, 2, 3]) (demo_settings [''before.sql'']) None None [7]) =
     Inl (Error ''unknown migration'')"
proof -
  define t :: "(nat, string, nat) event list" where
    "t = [Connect ''postgres://db'' (Inr ()), Lock (Inr ()),
      GetLastMigration (Inr (Some 7)),
      GetMigrationsAfter (Some 7) (Inl (Error ''unknown migration'')), Unlock, Release]"
  have run: "u_migrate (demo_env [1, 2, 3]) (demo_settings [''before.sql'']) None None [7] =
    (Inl (Error ''unknown migration''), [7], t)"
    by (simp add: run_defs t_def)
  have rejected: "GetMigrationsAfter (Some 7) (Inl (Error ''unknown migration'')) \<in> set t"
    by (simp add: t_def)
  then have "GetLastMigration (Inl (Error ''unknown migration'')) \<in> set t \<or>
      GetMigrationsAfter (Some 7) (Inl (Error ''unknown migration'')) \<in> set t"
    by blast
  from C9_ledger_failure [OF run this] rejected show ?thesis
    unfolding run result_of_def events_of_def by simp
qed

text \<open>
  C10. \<open>migrate(settings, shadow, forceActions)\<close> is \<open>parseSettings(settings, shadow)\<close>
  followed, when that resolves, by \<open>_migrate\<close> on its result with the same \<open>shadow\<close> and
  \<open>forceActions\<close>; an omitted \<open>shadow\<close> or \<open>forceActions\<close> counts as false, in \<open>migrate\<close>
  and in \<open>_migrate\<close>.
\<close>

theorem C10_migrate_refines:
  "migrate env settings (Some shadow) (Some forceActions) w =
     migrate_spec env settings shadow forceActions w \<and>
   migrate env settings None None w = migrate_spec env settings False False w \<and>
   migrate env settings (Some shadow) None w = migrate_spec env settings shadow False w \<and>
   migrate env settings None (Some forceActions) w =
     migrate_spec env settings False forceActions w \<and>
   u_migrate env p None None w = u_migrate env p (Some False) (Some False) w \<and>
   u_migrate env p (Some shadow) None w = u_migrate env p (Some shadow) (Some False) w \<and>
   u_migrate env p None (Some forceActions) w =
     u_migrate env p (Some False) (Some forceActions) w"
proof (intro conjI)
  show "migrate env settings (Some shadow) (Some forceActions) w =
     migrate_spec env settings shadow forceActions w"
    by (simp add: migrate_def migrate_spec_def await_def default_arg_def)
  show "migrate env settings None None w = migrate_spec env settings False False w"
    by (simp add: migrate_def migrate_spec_def await_def default_arg_def)
  show "migrate env settings (Some shadow) None w = migrate_spec env settings shadow False w"
    by (simp add: migrate_def migrate_spec_def await_def default_arg_def)
  show "migrate env settings None (Some forceActions) w =
     migrate_spec env settings False forceActions w"
    by (simp add: migrate_def migrate_spec_def await_def default_arg_def)
  show "u_migrate env p None None w = u_migrate env p (Some False) (Some False) w"
    by (simp add: u_migrate_def default_arg_def)
  show "u_migrate env p (Some shadow) None w = u_migrate env p (Some shadow) (Some False) w"
    by (simp add: u_migrate_def default_arg_def)
  show "u_migrate env p None (Some forceActions) w =
     u_migrate env p (Some False) (Some forceActions) w"
    by (simp add: u_migrate_def default_arg_def)
qed

theorem C10_migrate_refines_witness:
  "migrate_spec (demo_env [1, 2, 3]) demo_shadow_settings True True [1, 2, 3] =
     (Inr (), [1, 2, 3],
      [ParseSettings True (Inr ()),
       Connect ''postgres://shadow'' (Inr ()), Lock (Inr ()),
       GetLastMigration (Inr (Some 3)), GetMigrationsAfter (Some 3) (Inr []),
       ExecuteActions True [] (Inr ()),
       ExecuteActions True [] (Inr ()),
       LoggerInfo ''graphile-migrate[shadow]: Already up to date'' (Inr ()),
       Unlock, Release]) \<and>
   migrate_spec (demo_env [1, 2, 3]) (demo_settings [''before.sql'']) False False [1, 2] =
     (Inr (), [1, 2, 3],
      [ParseSettings False (Inr ()),
       Connect ''postgres://db'' (Inr ()), Lock (Inr ()),
       GetLastMigration (Inr (Some 2)), GetMigrationsAfter (Some 2) (Inr [3]),
       ExecuteActions False [''before.sql''] (Inr ()),
       RunCommittedMigration 3 '''' (Inr ()),
       ExecuteActions False [''after.sql''] (Inr ()),
       LoggerInfo ''graphile-migrate: 1 committed migrations executed'' (Inr ()),
       Unlock, Release])"
proof -
  have flags: "migrate (demo_env [1, 2, 3]) demo_shadow_settings (Some True) (Some True)
      [1, 2, 3] =
    migrate_spec (demo_env [1, 2, 3]) demo_shadow_settings True True [1, 2, 3]"
    using C10_migrate_refines [of "demo_env [1, 2, 3]" demo_shadow_settings True True
        "[1, 2, 3]"]
    by blast
  have omitted: "migrate (demo_env [1, 2, 3]) (demo_settings [''before.sql'']) None None
      [1, 2] =
    migrate_spec (demo_env [1, 2, 3]) (demo_settings [''before.sql'']) False False [1, 2]"
    using C10_migrate_refines [of "demo_env [1, 2, 3]" "demo_settings [''before.sql'']"
        _ _ "[1, 2]"]
    by blast
  from flags [symmetric] omitted [symmetric] show ?thesis
    unfolding demo_migrate demo_migrate_flags by simp
qed

end
